theory Spec2Isabelle
  imports Main "HOL-Library.Char_ord"
begin

section \<open>Text, integers and their Python renderings\<close>

text \<open>
  A Python \<open>str\<close> is modelled as a \<open>string\<close>: each \<open>char\<close> stands for the code point
  of the same number, so the model covers the texts whose code points are below 256.
  Python's \<open>int\<close> is unbounded and is modelled by \<open>int\<close>.
\<close>

datatype error =
    TimeFormatError string
  | ValueError
  | TypeError
  | AttributeError
  | OverflowError

record Time =
  hours :: int
  minutes :: int
  seconds :: int
  timezone :: string

definition HOURS_IN_DAY :: int where "HOURS_IN_DAY = 24"
definition HOURS_IN_HALF_DAY :: int where "HOURS_IN_HALF_DAY = 12"
definition MINUTES_IN_HOUR :: int where "MINUTES_IN_HOUR = 60"
definition SECONDS_IN_MINUTE :: int where "SECONDS_IN_MINUTE = 60"

text \<open>The dataclass constructor \<open>Time(hours, minutes, seconds)\<close>: no check, the
  timezone takes its default.\<close>

definition mk_Time :: "int \<Rightarrow> int \<Rightarrow> int \<Rightarrow> Time" where
  "mk_Time h m s = \<lparr>hours = h, minutes = m, seconds = s, timezone = ''UTC''\<rparr>"

text \<open>\<open>str.split(':')\<close>: the fields between the separators, always at least one.\<close>

fun str_split :: "char \<Rightarrow> string \<Rightarrow> string list" where
  "str_split d [] = [[]]"
| "str_split d (c # cs) =
     (if c = d then [] # str_split d cs
      else (let r = str_split d cs in (c # hd r) # tl r))"

definition is_digit :: "char \<Rightarrow> bool" where
  "is_digit c = (CHR ''0'' \<le> c \<and> c \<le> CHR ''9'')"

definition digit_val :: "char \<Rightarrow> nat" where
  "digit_val c = of_char c - 48"

definition digit_char :: "nat \<Rightarrow> char" where
  "digit_char n = char_of (48 + n)"

text \<open>The white space that \<open>int()\<close> strips from both ends of its argument: tab, line
  feed, vertical tab, form feed, carriage return, space, and the two white-space code
  points above 127 (next line, no-break space).\<close>

definition is_space :: "char \<Rightarrow> bool" where
  "is_space c = (of_char c \<in> {9, 10, 11, 12, 13, 32, 133, 160 :: nat})"

definition strip :: "string \<Rightarrow> string" where
  "strip s = rev (dropWhile is_space (rev (dropWhile is_space s)))"

text \<open>The digits of a base-10 literal: at least one digit, and an underscore only
  between two digits. The flag says that the previous character was a digit.\<close>

fun digits_value :: "bool \<Rightarrow> nat \<Rightarrow> string \<Rightarrow> nat option" where
  "digits_value prev acc [] = (if prev then Some acc else None)"
| "digits_value prev acc (c # cs) =
     (if is_digit c then digits_value True (10 * acc + digit_val c) cs
      else if c = CHR ''_'' \<and> prev then digits_value False acc cs
      else None)"

text \<open>\<open>int(s)\<close> on a string: surrounding white space, an optional sign, the digits.
  \<open>None\<close> stands for the \<open>ValueError\<close> it raises. The interpreter's configurable limit
  on the number of digits of a literal is not modelled.\<close>

definition py_int :: "string \<Rightarrow> int option" where
  "py_int s =
     (case strip s of
        [] \<Rightarrow> None
      | c # cs \<Rightarrow>
          if c = CHR ''-'' then map_option (\<lambda>n. - int n) (digits_value False 0 cs)
          else if c = CHR ''+'' then map_option int (digits_value False 0 cs)
          else map_option int (digits_value False 0 (c # cs)))"

text \<open>The decimal digits of a natural number, as \<open>str\<close> and the \<open>d\<close> format write them.\<close>

fun dec_digits :: "nat \<Rightarrow> string" where
  "dec_digits n =
     (if n < 10 then [digit_char n] else dec_digits (n div 10) @ [digit_char (n mod 10)])"

declare dec_digits.simps [simp del]

text \<open>\<open>f"{x}"\<close> for an integer.\<close>

definition py_str :: "int \<Rightarrow> string" where
  "py_str x = (if x < 0 then CHR ''-'' # dec_digits (nat (- x)) else dec_digits (nat x))"

text \<open>\<open>f"{x:02d}"\<close>: the sign, then the digits filled with zeros on the left up to a
  total width of two.\<close>

definition fmt_02d :: "int \<Rightarrow> string" where
  "fmt_02d x =
     (if x < 0 then CHR ''-'' # dec_digits (nat (- x))
      else (let ds = dec_digits (nat x) in replicate (2 - length ds) CHR ''0'' @ ds))"

section \<open>The decorator and the parser\<close>

text \<open>
  Every function of the module is wrapped by \<open>validate_time\<close>: an exception raised by
  the body is logged and shown in a dialog, and the wrapper then returns \<open>None\<close>; a
  result is passed on. Bodies are modelled with a result of type \<open>error + 'a\<close>, the
  wrapped functions with \<open>'a option\<close>, where \<open>None\<close> is Python's \<open>None\<close>. Logging and the
  dialog are not modelled.
\<close>

definition validate_time :: "error + 'a \<Rightarrow> 'a option" where
  "validate_time r = (case r of Inl e \<Rightarrow> None | Inr v \<Rightarrow> Some v)"


definition in_range :: "int \<Rightarrow> int \<Rightarrow> int \<Rightarrow> bool" where
  "in_range h m s =
     (0 \<le> h \<and> h < HOURS_IN_DAY \<and> 0 \<le> m \<and> m < MINUTES_IN_HOUR \<and> 0 \<le> s \<and> s < SECONDS_IN_MINUTE)"

definition parse_time_body :: "string \<Rightarrow> error + Time" where
  "parse_time_body time_str =
     (case str_split CHR '':'' time_str of
        [a, b] \<Rightarrow>
          (case py_int a of None \<Rightarrow> Inl ValueError | Some h \<Rightarrow>
          (case py_int b of None \<Rightarrow> Inl ValueError | Some m \<Rightarrow>
             if \<not> in_range h m 0 then Inl (TimeFormatError ''Time values out of valid range.'')
             else Inr (mk_Time h m 0)))
      | [a, b, c] \<Rightarrow>
          (case py_int a of None \<Rightarrow> Inl ValueError | Some h \<Rightarrow>
          (case py_int b of None \<Rightarrow> Inl ValueError | Some m \<Rightarrow>
          (case py_int c of None \<Rightarrow> Inl ValueError | Some s \<Rightarrow>
             if \<not> in_range h m s then Inl (TimeFormatError ''Time values out of valid range.'')
             else Inr (mk_Time h m s))))
      | _ \<Rightarrow> Inl (TimeFormatError ''Invalid time format. Please use HH:MM or HH:MM:SS.''))"

definition parse_time :: "string \<Rightarrow> Time option" where
  "parse_time time_str = validate_time (parse_time_body time_str)"

section \<open>Regular expressions as the module uses them\<close>

text \<open>
  The constructs of the pattern of \<open>standard_to_military_time\<close>: a literal, a character
  range, concatenation, alternation, the greedy optional \<open>?\<close>, a numbered capturing group,
  and the anchors \<open>^\<close> and \<open>$\<close>.
\<close>

datatype regex =
    Lit char
  | Range char char
  | Seq regex regex
  | Alt regex regex
  | Opt regex
  | Group nat regex
  | Bol
  | Eol

text \<open>Case mapping of the letters A to Z; no other code point below 256 maps to or from
  one of them.\<close>

definition to_lower :: "char \<Rightarrow> char" where
  "to_lower c = (if CHR ''A'' \<le> c \<and> c \<le> CHR ''Z'' then char_of (of_char c + (32::nat)) else c)"

definition to_upper :: "char \<Rightarrow> char" where
  "to_upper c = (if CHR ''a'' \<le> c \<and> c \<le> CHR ''z'' then char_of (of_char c - (32::nat)) else c)"

text \<open>Whether a literal, or a range, of the pattern matches a character of the text; the
  first argument is the \<open>IGNORECASE\<close> flag.\<close>

definition lit_matches :: "bool \<Rightarrow> char \<Rightarrow> char \<Rightarrow> bool" where
  "lit_matches ic a c = (c = a \<or> (ic \<and> to_lower c = to_lower a))"

definition range_matches :: "bool \<Rightarrow> char \<Rightarrow> char \<Rightarrow> char \<Rightarrow> bool" where
  "range_matches ic lo hi c =
     ((lo \<le> c \<and> c \<le> hi) \<or>
      (ic \<and> ((lo \<le> to_lower c \<and> to_lower c \<le> hi) \<or> (lo \<le> to_upper c \<and> to_upper c \<le> hi))))"

text \<open>
  A state of the matcher: the number of characters consumed, the text still to be
  read, and the groups captured so far. The backtracking search is the list of all the
  states in which a pattern can end, in the order in which the search tries them: the
  greedy choice first. The first element is the match that \<open>re\<close> reports.
\<close>

type_synonym mstate = "nat \<times> string \<times> (nat \<rightharpoonup> string)"

fun matches :: "bool \<Rightarrow> regex \<Rightarrow> mstate \<Rightarrow> mstate list" where
  "matches ic (Lit a) (p, s, g) =
     (case s of [] \<Rightarrow> [] | c # cs \<Rightarrow> if lit_matches ic a c then [(Suc p, cs, g)] else [])"
| "matches ic (Range lo hi) (p, s, g) =
     (case s of [] \<Rightarrow> [] | c # cs \<Rightarrow> if range_matches ic lo hi c then [(Suc p, cs, g)] else [])"
| "matches ic (Seq a b) st = concat (map (matches ic b) (matches ic a st))"
| "matches ic (Alt a b) st = matches ic a st @ matches ic b st"
| "matches ic (Opt a) st = matches ic a st @ [st]"
| "matches ic (Group n a) (p, s, g) =
     map (\<lambda>(p', s', g'). (p', s', g'(n \<mapsto> take (p' - p) s))) (matches ic a (p, s, g))"
| "matches ic Bol (p, s, g) = (if p = 0 then [(p, s, g)] else [])"
| "matches ic Eol (p, s, g) = (if s = [] \<or> s = [CHR 0x0A] then [(p, s, g)] else [])"

text \<open>\<open>pattern.match(text)\<close>: the groups of the first match from the start of the text,
  or \<open>None\<close>.\<close>

definition re_match :: "bool \<Rightarrow> regex \<Rightarrow> string \<Rightarrow> (nat \<rightharpoonup> string) option" where
  "re_match ic r s = (case matches ic r (0, s, Map.empty) of [] \<Rightarrow> None | (p, s', g) # _ \<Rightarrow> Some g)"

text \<open>The pattern \<^verbatim>\<open>^(1[0-2]|0?[1-9]):([0-5][0-9]):?([0-5]?[0-9])? ?(AM|PM)$\<close>.\<close>

definition hour_group :: regex where
  "hour_group =
     Group 1 (Alt (Seq (Lit CHR ''1'') (Range CHR ''0'' CHR ''2''))
                  (Seq (Opt (Lit CHR ''0'')) (Range CHR ''1'' CHR ''9'')))"

definition minute_group :: regex where
  "minute_group = Group 2 (Seq (Range CHR ''0'' CHR ''5'') (Range CHR ''0'' CHR ''9''))"

definition second_group :: regex where
  "second_group = Group 3 (Seq (Opt (Range CHR ''0'' CHR ''5'')) (Range CHR ''0'' CHR ''9''))"

definition period_group :: regex where
  "period_group =
     Group 4 (Alt (Seq (Lit CHR ''A'') (Lit CHR ''M'')) (Seq (Lit CHR ''P'') (Lit CHR ''M'')))"

definition standard_time_pattern :: regex where
  "standard_time_pattern =
     Seq Bol (Seq hour_group (Seq (Lit CHR '':'') (Seq minute_group
       (Seq (Opt (Lit CHR '':'')) (Seq (Opt second_group) (Seq (Opt (Lit CHR '' ''))
         (Seq period_group Eol)))))))"

section \<open>The converter\<close>

definition military_to_standard_time_body :: "string \<Rightarrow> bool \<Rightarrow> error + string" where
  "military_to_standard_time_body military_time use_24h =
     (case parse_time military_time of
        None \<Rightarrow> Inl AttributeError
      | Some time \<Rightarrow>
          if use_24h then
            Inr (fmt_02d (hours time) @ '':'' @ fmt_02d (minutes time) @ '':'' @ fmt_02d (seconds time))
          else
            (let period = (if hours time < HOURS_IN_HALF_DAY then ''AM'' else ''PM'');
                 standard_hours =
                   (if hours time = 0 then HOURS_IN_HALF_DAY
                    else if hours time > HOURS_IN_HALF_DAY then hours time - HOURS_IN_HALF_DAY
                    else hours time)
             in Inr (py_str standard_hours @ '':'' @ fmt_02d (minutes time) @ '':'' @
                     fmt_02d (seconds time) @ '' '' @ period)))"

definition military_to_standard_time :: "string \<Rightarrow> bool \<Rightarrow> string option" where
  "military_to_standard_time military_time use_24h =
     validate_time (military_to_standard_time_body military_time use_24h)"

text \<open>\<open>int(x)\<close> on a group of the match: a group that did not take part is \<open>None\<close>, on
  which \<open>int\<close> raises \<open>TypeError\<close>.\<close>

definition int_of_group :: "string option \<Rightarrow> error + int" where
  "int_of_group x =
     (case x of None \<Rightarrow> Inl TypeError
      | Some w \<Rightarrow> (case py_int w of None \<Rightarrow> Inl ValueError | Some v \<Rightarrow> Inr v))"

definition standard_to_military_time_body :: "string \<Rightarrow> error + string" where
  "standard_to_military_time_body standard_time =
     (case re_match True standard_time_pattern standard_time of
        None \<Rightarrow> Inl (TimeFormatError ''Invalid standard time format. Use HH:MM:SS AM/PM.'')
      | Some g \<Rightarrow>
          (case int_of_group (g 1) of Inl e \<Rightarrow> Inl e | Inr hours0 \<Rightarrow>
          (case int_of_group (g 2) of Inl e \<Rightarrow> Inl e | Inr minutes0 \<Rightarrow>
          (case (if g 3 = None \<or> g 3 = Some [] then Inr 0 else int_of_group (g 3)) of
             Inl e \<Rightarrow> Inl e | Inr seconds0 \<Rightarrow>
          (case g 4 of None \<Rightarrow> Inl AttributeError | Some period \<Rightarrow>
             (let hours1 =
                    (if map to_upper period = ''PM'' \<and> hours0 \<noteq> HOURS_IN_HALF_DAY
                       then hours0 + HOURS_IN_HALF_DAY
                     else if map to_upper period = ''AM'' \<and> hours0 = HOURS_IN_HALF_DAY then 0
                     else hours0)
              in Inr (fmt_02d hours1 @ '':'' @ fmt_02d minutes0 @ '':'' @ fmt_02d seconds0)))))))"

definition standard_to_military_time :: "string \<Rightarrow> string option" where
  "standard_to_military_time standard_time =
     validate_time (standard_to_military_time_body standard_time)"

section \<open>Dates, times and durations of the \<open>datetime\<close> library\<close>

text \<open>
  A \<open>datetime\<close> is its day number in the proleptic Gregorian calendar (1 is the first
  day of year 1, 3652059 the last day of year 9999) with the hour, minute and second of
  that day. A \<open>timedelta\<close> is a number of days and a number of seconds from 0 to 86399;
  microseconds are always zero here. Both constructors raise on values out of range.
\<close>

record datetime =
  ordinal :: int
  hour :: int
  minute :: int
  second :: int

record timedelta =
  td_days :: int
  td_seconds :: int

definition MAXORDINAL :: int where "MAXORDINAL = 3652059"

text \<open>The day number of 2000-01-01.\<close>

definition ORDINAL_2000_01_01 :: int where "ORDINAL_2000_01_01 = 730120"

text \<open>\<open>datetime(2000, 1, 1, h, m, s)\<close>.\<close>

definition datetime_2000 :: "int \<Rightarrow> int \<Rightarrow> int \<Rightarrow> error + datetime" where
  "datetime_2000 h m s =
     (if 0 \<le> h \<and> h < 24 \<and> 0 \<le> m \<and> m < 60 \<and> 0 \<le> s \<and> s < 60
      then Inr \<lparr>ordinal = ORDINAL_2000_01_01, hour = h, minute = m, second = s\<rparr>
      else Inl ValueError)"

text \<open>\<open>timedelta(days=d, hours=h, minutes=m, seconds=s)\<close> on integers: normalised, and
  refused when the days exceed 999999999 in magnitude.\<close>

definition mk_timedelta :: "int \<Rightarrow> int \<Rightarrow> int \<Rightarrow> int \<Rightarrow> error + timedelta" where
  "mk_timedelta d h m s =
     (let total = d * 86400 + h * 3600 + m * 60 + s;
          dd = total div 86400
      in if dd < - 999999999 \<or> 999999999 < dd then Inl OverflowError
         else Inr \<lparr>td_days = dd, td_seconds = total mod 86400\<rparr>)"

definition second_of_day :: "datetime \<Rightarrow> int" where
  "second_of_day dt = hour dt * 3600 + minute dt * 60 + second dt"

text \<open>A day number and a count of seconds, carried into a \<open>datetime\<close>; the date has to
  stay within the years 1 to 9999.\<close>

definition normalize_datetime :: "int \<Rightarrow> int \<Rightarrow> error + datetime" where
  "normalize_datetime d secs =
     (let d' = d + secs div 86400; r = secs mod 86400
      in if d' < 1 \<or> MAXORDINAL < d' then Inl OverflowError
         else Inr \<lparr>ordinal = d', hour = r div 3600, minute = (r mod 3600) div 60, second = r mod 60\<rparr>)"

text \<open>\<open>dt + td\<close> and \<open>dt - td\<close>.\<close>

definition datetime_add :: "datetime \<Rightarrow> timedelta \<Rightarrow> error + datetime" where
  "datetime_add dt td = normalize_datetime (ordinal dt + td_days td) (second_of_day dt + td_seconds td)"

definition datetime_sub :: "datetime \<Rightarrow> timedelta \<Rightarrow> error + datetime" where
  "datetime_sub dt td = normalize_datetime (ordinal dt - td_days td) (second_of_day dt - td_seconds td)"

text \<open>\<open>a - b\<close> on two \<open>datetime\<close>s, \<open>abs(td)\<close> and \<open>a < b\<close>.\<close>

definition datetime_diff :: "datetime \<Rightarrow> datetime \<Rightarrow> error + timedelta" where
  "datetime_diff a b = mk_timedelta (ordinal a - ordinal b) 0 0 (second_of_day a - second_of_day b)"

definition timedelta_abs :: "timedelta \<Rightarrow> error + timedelta" where
  "timedelta_abs td =
     (if td_days td < 0 then mk_timedelta (- td_days td) 0 0 (- td_seconds td) else Inr td)"

definition datetime_less :: "datetime \<Rightarrow> datetime \<Rightarrow> bool" where
  "datetime_less a b =
     (ordinal a < ordinal b \<or> (ordinal a = ordinal b \<and> second_of_day a < second_of_day b))"

section \<open>The arithmetic engine\<close>

text \<open>The parsed time anchored to 2000-01-01; a \<open>None\<close> from the parser has no
  attribute \<open>hours\<close>.\<close>

definition anchored :: "string \<Rightarrow> error + datetime" where
  "anchored time_str =
     (case parse_time time_str of
        None \<Rightarrow> Inl AttributeError
      | Some time \<Rightarrow> datetime_2000 (hours time) (minutes time) (seconds time))"

definition render_datetime :: "datetime \<Rightarrow> string" where
  "render_datetime dt = fmt_02d (hour dt) @ '':'' @ fmt_02d (minute dt) @ '':'' @ fmt_02d (second dt)"

definition add_time_body :: "string \<Rightarrow> int \<Rightarrow> int \<Rightarrow> int \<Rightarrow> error + string" where
  "add_time_body time_str h m s =
     (case anchored time_str of Inl e \<Rightarrow> Inl e | Inr dt \<Rightarrow>
     (case mk_timedelta 0 h m s of Inl e \<Rightarrow> Inl e | Inr td \<Rightarrow>
     (case datetime_add dt td of Inl e \<Rightarrow> Inl e | Inr dt' \<Rightarrow> Inr (render_datetime dt'))))"

definition add_time :: "string \<Rightarrow> int \<Rightarrow> int \<Rightarrow> int \<Rightarrow> string option" where
  "add_time time_str h m s = validate_time (add_time_body time_str h m s)"

definition subtract_time_body :: "string \<Rightarrow> int \<Rightarrow> int \<Rightarrow> int \<Rightarrow> error + string" where
  "subtract_time_body time_str h m s =
     (case anchored time_str of Inl e \<Rightarrow> Inl e | Inr dt \<Rightarrow>
     (case mk_timedelta 0 h m s of Inl e \<Rightarrow> Inl e | Inr td \<Rightarrow>
     (case datetime_sub dt td of Inl e \<Rightarrow> Inl e | Inr dt' \<Rightarrow> Inr (render_datetime dt'))))"

definition subtract_time :: "string \<Rightarrow> int \<Rightarrow> int \<Rightarrow> int \<Rightarrow> string option" where
  "subtract_time time_str h m s = validate_time (subtract_time_body time_str h m s)"

text \<open>The last three lines of \<open>time_difference\<close> and of \<open>calculate_duration\<close>: the
  \<open>seconds\<close> attribute of the duration, split by \<open>divmod\<close> and rendered.\<close>

definition render_seconds :: "int \<Rightarrow> string" where
  "render_seconds secs =
     (let hrs = secs div 3600; remainder = secs mod 3600;
          mins = remainder div 60; ss = remainder mod 60
      in fmt_02d hrs @ '':'' @ fmt_02d mins @ '':'' @ fmt_02d ss)"

definition time_difference_body :: "string \<Rightarrow> string \<Rightarrow> error + string" where
  "time_difference_body time1 time2 =
     (case parse_time time1 of None \<Rightarrow> Inl AttributeError | Some t1 \<Rightarrow>
     (case parse_time time2 of None \<Rightarrow> Inl AttributeError | Some t2 \<Rightarrow>
     (case datetime_2000 (hours t1) (minutes t1) (seconds t1) of Inl e \<Rightarrow> Inl e | Inr dt1 \<Rightarrow>
     (case datetime_2000 (hours t2) (minutes t2) (seconds t2) of Inl e \<Rightarrow> Inl e | Inr dt2 \<Rightarrow>
     (case datetime_diff dt2 dt1 of Inl e \<Rightarrow> Inl e | Inr d \<Rightarrow>
     (case timedelta_abs d of Inl e \<Rightarrow> Inl e | Inr diff \<Rightarrow>
        Inr (render_seconds (td_seconds diff))))))))"

definition time_difference :: "string \<Rightarrow> string \<Rightarrow> string option" where
  "time_difference time1 time2 = validate_time (time_difference_body time1 time2)"

definition calculate_duration_body :: "string \<Rightarrow> string \<Rightarrow> error + string" where
  "calculate_duration_body start_time end_time =
     (case parse_time start_time of None \<Rightarrow> Inl AttributeError | Some start \<Rightarrow>
     (case parse_time end_time of None \<Rightarrow> Inl AttributeError | Some end0 \<Rightarrow>
     (case datetime_2000 (hours start) (minutes start) (seconds start) of Inl e \<Rightarrow> Inl e | Inr start_dt \<Rightarrow>
     (case datetime_2000 (hours end0) (minutes end0) (seconds end0) of Inl e \<Rightarrow> Inl e | Inr end_dt0 \<Rightarrow>
     (case (if datetime_less end_dt0 start_dt
            then (case mk_timedelta 1 0 0 0 of Inl e \<Rightarrow> Inl e | Inr day \<Rightarrow> datetime_add end_dt0 day)
            else Inr end_dt0) of Inl e \<Rightarrow> Inl e | Inr end_dt \<Rightarrow>
     (case datetime_diff end_dt start_dt of Inl e \<Rightarrow> Inl e | Inr duration \<Rightarrow>
        Inr (render_seconds (td_seconds duration))))))))"

definition calculate_duration :: "string \<Rightarrow> string \<Rightarrow> string option" where
  "calculate_duration start_time end_time = validate_time (calculate_duration_body start_time end_time)"

section \<open>Notions of the specification\<close>

text \<open>The zero-padded two-digit rendering, the \<open>HH:MM:SS\<close> form built from it, and the
  rendering of a number below 100 without padding.\<close>

definition two_digits :: "int \<Rightarrow> string" where
  "two_digits x = [digit_char (nat x div 10), digit_char (nat x mod 10)]"

definition hhmmss :: "int \<Rightarrow> int \<Rightarrow> int \<Rightarrow> string" where
  "hhmmss h m s = two_digits h @ '':'' @ two_digits m @ '':'' @ two_digits s"

definition plain_digits :: "int \<Rightarrow> string" where
  "plain_digits x = (if x < 10 then [digit_char (nat x)] else two_digits x)"

text \<open>The hour of the 12-hour clock and the meridiem of an hour of the 24-hour clock.\<close>

definition standard_hour :: "int \<Rightarrow> int" where
  "standard_hour h = (if h = 0 then 12 else if h = 12 then 12 else if h > 12 then h - 12 else h)"

definition meridiem :: "int \<Rightarrow> string" where
  "meridiem h = (if h < 12 then ''AM'' else ''PM'')"


text \<open>The second of the day of a time, and the \<open>HH:MM:SS\<close> form of a number of seconds
  below 24 hours.\<close>

definition seconds_of :: "Time \<Rightarrow> int" where
  "seconds_of t = hours t * 3600 + minutes t * 60 + seconds t"

definition duration_text :: "int \<Rightarrow> string" where
  "duration_text n = hhmmss (n div 3600) ((n mod 3600) div 60) (n mod 60)"

text \<open>
  What a pattern matches, stated without the search: \<open>denotes ic r p w s'\<close> says that
  the pattern \<open>r\<close> can consume exactly the text \<open>w\<close>, starting after \<open>p\<close> characters of
  the input and with \<open>s'\<close> left behind it.
\<close>

fun denotes :: "bool \<Rightarrow> regex \<Rightarrow> nat \<Rightarrow> string \<Rightarrow> string \<Rightarrow> bool" where
  "denotes ic (Lit a) p w s' = (\<exists>c. w = [c] \<and> lit_matches ic a c)"
| "denotes ic (Range lo hi) p w s' = (\<exists>c. w = [c] \<and> range_matches ic lo hi c)"
| "denotes ic (Seq a b) p w s' =
     (\<exists>u v. w = u @ v \<and> denotes ic a p u (v @ s') \<and> denotes ic b (p + length u) v s')"
| "denotes ic (Alt a b) p w s' = (denotes ic a p w s' \<or> denotes ic b p w s')"
| "denotes ic (Opt a) p w s' = (denotes ic a p w s' \<or> w = [])"
| "denotes ic (Group n a) p w s' = denotes ic a p w s'"
| "denotes ic Bol p w s' = (w = [] \<and> p = 0)"
| "denotes ic Eol p w s' = (w = [] \<and> (s' = [] \<or> s' = [CHR 0x0A]))"

text \<open>
  The grammar of the 12-hour form as the specification words it: the hour from 1 to 12
  with an optional leading zero, a colon, the minute with two digits, optionally a colon
  and the second with two digits, an optional single space, and \<open>AM\<close> or \<open>PM\<close> in any
  mix of upper and lower case.
\<close>

definition hour_text :: "bool \<Rightarrow> int \<Rightarrow> string" where
  "hour_text z h = (if z \<and> h < 10 then CHR ''0'' # plain_digits h else plain_digits h)"

definition am_texts :: "string set" where
  "am_texts = {''AM'', ''Am'', ''aM'', ''am''}"

definition pm_texts :: "string set" where
  "pm_texts = {''PM'', ''Pm'', ''pM'', ''pm''}"

definition meridiem_texts :: "string set" where
  "meridiem_texts = am_texts \<union> pm_texts"

definition standard_text :: "bool \<Rightarrow> int \<Rightarrow> int \<Rightarrow> int option \<Rightarrow> bool \<Rightarrow> string \<Rightarrow> string" where
  "standard_text z h m so sp p =
     hour_text z h @ '':'' @ two_digits m @
     (case so of None \<Rightarrow> [] | Some x \<Rightarrow> '':'' @ two_digits x) @
     (if sp then '' '' else []) @ p"

definition standard_texts :: "string set" where
  "standard_texts =
     {standard_text z h m so sp p | z h m so sp p.
        1 \<le> h \<and> h \<le> 12 \<and> 0 \<le> m \<and> m < 60 \<and> (\<forall>x. so = Some x \<longrightarrow> 0 \<le> x \<and> x < 60) \<and>
        p \<in> meridiem_texts}"

text \<open>The hour of the 24-hour clock for an hour of the 12-hour clock and a meridiem.\<close>

definition military_hour :: "int \<Rightarrow> string \<Rightarrow> int" where
  "military_hour h p =
     (if p \<in> pm_texts \<and> h \<noteq> 12 then h + 12 else if p \<in> am_texts \<and> h = 12 then 0 else h)"

text \<open>
  The texts that the pattern of the code accepts, up to a final line feed: as above, but
  the colon after the minutes and the second are optional independently of each other,
  and the second may have one digit.
\<close>

definition conc :: "string set \<Rightarrow> string set \<Rightarrow> string set" where
  "conc A B = {u @ v | u v. u \<in> A \<and> v \<in> B}"

definition hour_texts :: "string set" where
  "hour_texts = {hour_text z h | z h. 1 \<le> h \<and> h \<le> 12}"

definition minute_texts :: "string set" where
  "minute_texts = {two_digits m | m. 0 \<le> m \<and> m < 60}"

definition digit_texts :: "string set" where
  "digit_texts = {[digit_char k] | k. k \<le> 9}"

definition accepted_texts :: "string set" where
  "accepted_texts =
     conc hour_texts (conc {'':''} (conc minute_texts (conc {[], '':''}
       (conc (insert [] (digit_texts \<union> minute_texts)) (conc {[], '' ''} meridiem_texts)))))"

text \<open>The number that a text of decimal digits writes; the empty text counts as 0.\<close>

definition decimal_value :: "string \<Rightarrow> int" where
  "decimal_value ds = int (foldl (\<lambda>n c. 10 * n + digit_val c) 0 ds)"

text \<open>Two suffixes of the pattern, named for the proofs: what follows the seconds, and
  what follows the minutes; and the characters with which the text after the seconds can
  start.\<close>

definition space_period :: regex where
  "space_period = Seq (Opt (Lit CHR '' '')) (Seq period_group Eol)"

definition second_tail :: regex where
  "second_tail = Seq (Opt (Lit CHR '':'')) (Seq (Opt second_group) space_period)"

definition tail_start :: "char set" where
  "tail_start = {CHR '' '', CHR ''A'', CHR ''a'', CHR ''P'', CHR ''p''}"

section \<open>Digits and formatting\<close>

lemma of_char_digit_char: "n < 10 \<Longrightarrow> of_char (digit_char n) = 48 + n"
  by (simp add: digit_char_def)

lemma is_digit_digit_char: "n < 10 \<Longrightarrow> is_digit (digit_char n)"
  by (simp add: is_digit_def less_eq_char_def of_char_digit_char)

lemma digit_val_digit_char: "n < 10 \<Longrightarrow> digit_val (digit_char n) = n"
  by (simp add: digit_val_def of_char_digit_char)

lemma digit_char_numerals:
  "digit_char 0 = CHR ''0''" "digit_char 1 = CHR ''1''" "digit_char 2 = CHR ''2''"
  "digit_char 3 = CHR ''3''" "digit_char 4 = CHR ''4''" "digit_char 5 = CHR ''5''"
  "digit_char 6 = CHR ''6''" "digit_char 7 = CHR ''7''" "digit_char 8 = CHR ''8''"
  "digit_char 9 = CHR ''9''"
  by code_simp+

lemma dec_digits_one: "n < 10 \<Longrightarrow> dec_digits n = [digit_char n]"
  by (simp add: dec_digits.simps)

lemma dec_digits_two:
  assumes "10 \<le> n" "n < 100"
  shows "dec_digits n = [digit_char (n div 10), digit_char (n mod 10)]"
proof -
  from assms have "n div 10 < 10" by simp
  with assms show ?thesis
    by (simp add: dec_digits.simps [of n] dec_digits_one)
qed

lemma fmt_02d_two_digits:
  assumes "0 \<le> x" "x < 100"
  shows "fmt_02d x = two_digits x"
proof (cases "x < 10")
  case True
  with assms have "nat x < 10" "nat x div 10 = 0" "nat x mod 10 = nat x" by simp_all
  with assms show ?thesis
    by (simp add: fmt_02d_def two_digits_def dec_digits_one digit_char_numerals)
next
  case False
  with assms have "10 \<le> nat x" "nat x < 100" by simp_all
  with assms show ?thesis
    by (simp add: fmt_02d_def two_digits_def dec_digits_two)
qed

lemma py_str_plain_digits:
  assumes "0 \<le> x" "x < 100"
  shows "py_str x = plain_digits x"
proof (cases "x < 10")
  case True
  with assms show ?thesis by (simp add: py_str_def plain_digits_def dec_digits_one)
next
  case False
  with assms have "10 \<le> nat x" "nat x < 100" by simp_all
  with assms False show ?thesis
    by (simp add: py_str_def plain_digits_def two_digits_def dec_digits_two)
qed

section \<open>The parser\<close>

lemma parse_time_in_range:
  assumes "parse_time s = Some t"
  shows "in_range (hours t) (minutes t) (seconds t)"
  using assms
  by (auto simp: parse_time_def validate_time_def parse_time_body_def mk_Time_def
      split: list.splits option.splits if_splits)

lemma in_range_bounds:
  "in_range h m s \<longleftrightarrow> 0 \<le> h \<and> h \<le> 23 \<and> 0 \<le> m \<and> m \<le> 59 \<and> 0 \<le> s \<and> s \<le> 59"
  by (auto simp: in_range_def HOURS_IN_DAY_def MINUTES_IN_HOUR_def SECONDS_IN_MINUTE_def)

text \<open>
  C10. The only place where the module constructs a \<open>Time\<close> is the last line of
  \<open>parse_time\<close>, behind its range check: every \<open>Time\<close> that the parser returns has its
  hours from 0 to 23, its minutes from 0 to 59 and its seconds from 0 to 59.
\<close>

theorem parse_time_constructs_valid:
  "parse_time s = Some t \<Longrightarrow>
     0 \<le> hours t \<and> hours t \<le> 23 \<and> 0 \<le> minutes t \<and> minutes t \<le> 59 \<and>
     0 \<le> seconds t \<and> seconds t \<le> 59"
  using parse_time_in_range [of s t] by (simp add: in_range_bounds)

theorem parse_time_constructs_valid_witness:
  "parse_time ''23:59:59'' = Some (mk_Time 23 59 59) \<and>
   0 \<le> hours (mk_Time 23 59 59) \<and> hours (mk_Time 23 59 59) \<le> 23 \<and>
   0 \<le> minutes (mk_Time 23 59 59) \<and> minutes (mk_Time 23 59 59) \<le> 59 \<and>
   0 \<le> seconds (mk_Time 23 59 59) \<and> seconds (mk_Time 23 59 59) \<le> 59"
proof -
  have h: "parse_time ''23:59:59'' = Some (mk_Time 23 59 59)" by code_simp
  show ?thesis using h parse_time_constructs_valid [OF h] by simp
qed

section \<open>From the 24-hour to the 12-hour form\<close>

lemma military_to_standard_time_render:
  assumes "parse_time s = Some t"
  shows "military_to_standard_time s False =
           Some (plain_digits (standard_hour (hours t)) @ '':'' @ two_digits (minutes t) @ '':'' @
                 two_digits (seconds t) @ '' '' @ meridiem (hours t))"
proof -
  from assms have r: "in_range (hours t) (minutes t) (seconds t)"
    by (rule parse_time_in_range)
  then have b: "0 \<le> hours t" "hours t \<le> 23" "0 \<le> minutes t" "minutes t \<le> 59"
    "0 \<le> seconds t" "seconds t \<le> 59"
    by (simp_all add: in_range_bounds)
  have sh: "(if hours t = 0 then HOURS_IN_HALF_DAY
             else if hours t > HOURS_IN_HALF_DAY then hours t - HOURS_IN_HALF_DAY
             else hours t) = standard_hour (hours t)"
    by (simp add: standard_hour_def HOURS_IN_HALF_DAY_def)
  have hb: "0 \<le> standard_hour (hours t)" "standard_hour (hours t) < 100"
    using b by (simp_all add: standard_hour_def)
  have per: "(if hours t < HOURS_IN_HALF_DAY then ''AM'' else ''PM'') = meridiem (hours t)"
    by (simp add: meridiem_def HOURS_IN_HALF_DAY_def)
  have m: "fmt_02d (minutes t) = two_digits (minutes t)"
    using b by (intro fmt_02d_two_digits) simp_all
  have sc: "fmt_02d (seconds t) = two_digits (seconds t)"
    using b by (intro fmt_02d_two_digits) simp_all
  show ?thesis
    unfolding military_to_standard_time_def military_to_standard_time_body_def validate_time_def
    by (simp add: assms Let_def sh per m sc py_str_plain_digits [OF hb])
qed

text \<open>
  C2. For every text that the parser accepts, \<open>military_to_standard_time\<close> without
  \<open>use_24h\<close> writes the hour of the 12-hour clock (0 and 12 become 12, an hour above 12
  loses 12, any other hour is kept) without padding, then the minutes and the seconds
  with two digits each, then \<open>AM\<close> for an hour below 12 and \<open>PM\<close> otherwise; midnight,
  noon and half past one in the afternoon come out as the specification lists them.
\<close>

theorem military_to_standard_time_spec:
  "(parse_time s = Some t \<longrightarrow>
      military_to_standard_time s False =
        Some (plain_digits (standard_hour (hours t)) @ '':'' @ two_digits (minutes t) @ '':'' @
              two_digits (seconds t) @ '' '' @ meridiem (hours t))) \<and>
   military_to_standard_time ''00:00:00'' False = Some ''12:00:00 AM'' \<and>
   military_to_standard_time ''12:00:00'' False = Some ''12:00:00 PM'' \<and>
   military_to_standard_time ''13:30:00'' False = Some ''1:30:00 PM''"
proof -
  have "military_to_standard_time ''00:00:00'' False = Some ''12:00:00 AM''" by code_simp
  moreover have "military_to_standard_time ''12:00:00'' False = Some ''12:00:00 PM''" by code_simp
  moreover have "military_to_standard_time ''13:30:00'' False = Some ''1:30:00 PM''" by code_simp
  ultimately show ?thesis
    using military_to_standard_time_render [of s t] by blast
qed

theorem military_to_standard_time_spec_witness:
  "parse_time ''9:05'' = Some (mk_Time 9 5 0) \<and>
   military_to_standard_time ''9:05'' False = Some ''9:05:00 AM''"
proof -
  have h: "parse_time ''9:05'' = Some (mk_Time 9 5 0)" by code_simp
  have "plain_digits (standard_hour (hours (mk_Time 9 5 0))) @ '':'' @
        two_digits (minutes (mk_Time 9 5 0)) @ '':'' @ two_digits (seconds (mk_Time 9 5 0)) @
        '' '' @ meridiem (hours (mk_Time 9 5 0)) = ''9:05:00 AM''"
    by code_simp
  then show ?thesis
    using h military_to_standard_time_spec [of "''9:05''" "mk_Time 9 5 0"] by simp
qed

section \<open>What the parser accepts\<close>

lemma str_split_no_sep: "d \<notin> set a \<Longrightarrow> str_split d a = [a]"
  by (induction a) (auto simp: Let_def)

lemma str_split_append:
  "d \<notin> set a \<Longrightarrow> str_split d (a @ d # rest) = a # str_split d rest"
  by (induction a) (auto simp: Let_def)

lemma digit_char_not_colon: "n < 10 \<Longrightarrow> digit_char n \<noteq> CHR '':''"
  using of_char_digit_char [of n] by auto

lemma not_is_space_digit_char: "n < 10 \<Longrightarrow> \<not> is_space (digit_char n)"
  by (simp add: is_space_def of_char_digit_char)

lemma digit_char_not_sign: "n < 10 \<Longrightarrow> digit_char n \<noteq> CHR ''-'' \<and> digit_char n \<noteq> CHR ''+''"
  using of_char_digit_char [of n] by auto

lemma py_int_two_digits:
  assumes "0 \<le> x" "x < 100"
  shows "py_int (two_digits x) = Some x"
proof -
  from assms have a: "nat x div 10 < 10" and b: "nat x mod 10 < 10" by simp_all
  have "int (10 * (nat x div 10) + nat x mod 10) = x" using assms by simp
  then show ?thesis
    using a b digit_char_not_sign [OF a]
    by (simp add: py_int_def two_digits_def strip_def not_is_space_digit_char
        is_digit_digit_char digit_val_digit_char)
qed

lemma py_int_plain_digit:
  assumes "0 \<le> x" "x < 10"
  shows "py_int [digit_char (nat x)] = Some x"
proof -
  from assms have a: "nat x < 10" by simp
  show ?thesis
    using a assms digit_char_not_sign [OF a]
    by (simp add: py_int_def strip_def not_is_space_digit_char
        is_digit_digit_char digit_val_digit_char)
qed

lemma colon_notin_two_digits:
  assumes "0 \<le> x" "x < 100"
  shows "CHR '':'' \<notin> set (two_digits x)"
proof -
  from assms have "nat x div 10 < 10" "nat x mod 10 < 10" by simp_all
  then show ?thesis
    using digit_char_not_colon [of "nat x div 10"] digit_char_not_colon [of "nat x mod 10"]
    by (auto simp: two_digits_def)
qed

lemma str_split_hhmmss:
  assumes "0 \<le> h" "h < 100" "0 \<le> m" "m < 100" "0 \<le> s" "s < 100"
  shows "str_split CHR '':'' (hhmmss h m s) = [two_digits h, two_digits m, two_digits s]"
  using assms
  by (simp add: hhmmss_def str_split_append str_split_no_sep colon_notin_two_digits)


lemma parse_time_body_hhmmss:
  assumes "in_range h m s"
  shows "parse_time_body (hhmmss h m s) = Inr (mk_Time h m s)"
proof -
  from assms have b: "0 \<le> h" "h < 100" "0 \<le> m" "m < 100" "0 \<le> s" "s < 100"
    by (simp_all add: in_range_bounds)
  show ?thesis
    unfolding parse_time_body_def
    by (simp add: str_split_hhmmss b py_int_two_digits assms)
qed






lemma parse_time_Some_iff: "parse_time s = Some t \<longleftrightarrow> parse_time_body s = Inr t"
  by (simp add: parse_time_def validate_time_def split: sum.splits)










section \<open>Arithmetic on times of day\<close>

lemma div_carry: "(b + D mod 86400) div 86400 + D div 86400 = (b + D) div (86400::int)"
proof -
  have "b + D = (b + D mod 86400) + (D div 86400) * 86400" by simp
  then have "(b + D) div 86400 = ((b + D mod 86400) + (D div 86400) * 86400) div 86400"
    by (rule arg_cong)
  also have "\<dots> = D div 86400 + (b + D mod 86400) div 86400"
    by (rule div_mult_self1) simp
  finally show ?thesis by simp
qed

lemma div_borrow: "(b - D mod 86400) div 86400 - D div 86400 = (b - D) div (86400::int)"
proof -
  have "D div 86400 * 86400 + D mod 86400 = D" by (rule div_mult_mod_eq)
  then have "b - D = (b - D mod 86400) + (- (D div 86400)) * 86400" by linarith
  then have "(b - D) div 86400 = ((b - D mod 86400) + (- (D div 86400)) * 86400) div 86400"
    by (rule arg_cong)
  also have "\<dots> = - (D div 86400) + (b - D mod 86400) div 86400"
    by (rule div_mult_self1) simp
  finally show ?thesis by simp
qed

lemma mod_carry: "(b + D mod 86400) mod 86400 = (b + D) mod (86400::int)"
  by (simp add: mod_add_right_eq)

lemma mod_borrow: "(b - D mod 86400) mod 86400 = (b - D) mod (86400::int)"
  by (simp add: mod_diff_right_eq)

lemma carry_bounds:
  fixes b D :: int
  assumes "0 \<le> b" "b < 86400"
  shows "0 \<le> (b + D mod 86400) div 86400" "(b + D mod 86400) div 86400 \<le> 1"
    "- 1 \<le> (b - D mod 86400) div 86400" "(b - D mod 86400) div 86400 \<le> 0"
proof -
  have m: "0 \<le> D mod 86400" "D mod 86400 < 86400" by simp_all
  from assms m show "0 \<le> (b + D mod 86400) div 86400" by simp
  from assms m have "b + D mod 86400 \<le> 172799" by simp
  then have "(b + D mod 86400) div 86400 \<le> 172799 div 86400"
    by (rule zdiv_mono1) simp
  then show "(b + D mod 86400) div 86400 \<le> 1" by simp
  from assms m have "- 86400 \<le> b - D mod 86400" by simp
  then have "(- 86400) div 86400 \<le> (b - D mod 86400) div 86400"
    by (rule zdiv_mono1) simp
  then show "- 1 \<le> (b - D mod 86400) div 86400" by simp
  from assms m have "b - D mod 86400 \<le> 86399" by simp
  then have "(b - D mod 86400) div 86400 \<le> 86399 div 86400"
    by (rule zdiv_mono1) simp
  then show "(b - D mod 86400) div 86400 \<le> 0" by simp
qed

lemma hms_bounds:
  fixes n :: int
  assumes "0 \<le> n" "n < 86400"
  shows "0 \<le> n div 3600" "n div 3600 < 24" "0 \<le> n mod 3600 div 60" "n mod 3600 div 60 < 60"
    "0 \<le> n mod 60" "n mod 60 < 60" "n mod 3600 mod 60 = n mod 60"
proof -
  show "0 \<le> n div 3600" using assms by simp
  from assms have "n \<le> 86399" by simp
  then have "n div 3600 \<le> 86399 div 3600" by (rule zdiv_mono1) simp
  then show "n div 3600 < 24" by simp
  have "n mod 3600 \<le> 3599" using pos_mod_bound [of 3600 n] by simp
  then have "n mod 3600 div 60 \<le> 3599 div 60" by (rule zdiv_mono1) simp
  then show "n mod 3600 div 60 < 60" by simp
  show "0 \<le> n mod 3600 div 60" by simp
  show "0 \<le> n mod 60" "n mod 60 < 60" by simp_all
  show "n mod 3600 mod 60 = n mod 60" by (simp add: mod_mod_cancel)
qed

lemma fmt_hms:
  fixes n :: int
  assumes "0 \<le> n" "n < 86400"
  shows "fmt_02d (n div 3600) = two_digits (n div 3600)"
    "fmt_02d (n mod 3600 div 60) = two_digits (n mod 3600 div 60)"
    "fmt_02d (n mod 60) = two_digits (n mod 60)"
proof -
  note b = hms_bounds [OF assms]
  show "fmt_02d (n div 3600) = two_digits (n div 3600)"
    using b(1,2) by (intro fmt_02d_two_digits) linarith+
  show "fmt_02d (n mod 3600 div 60) = two_digits (n mod 3600 div 60)"
    using b(3,4) by (intro fmt_02d_two_digits) linarith+
  show "fmt_02d (n mod 60) = two_digits (n mod 60)"
    using b(5,6) by (intro fmt_02d_two_digits) linarith+
qed

lemma render_seconds_text:
  assumes "0 \<le> n" "n < 86400"
  shows "render_seconds n = duration_text n"
  using fmt_hms [OF assms] hms_bounds(7) [OF assms]
  by (simp add: render_seconds_def duration_text_def hhmmss_def Let_def)

lemma render_datetime_text:
  assumes "0 \<le> n" "n < 86400"
  shows "render_datetime \<lparr>ordinal = d, hour = n div 3600, minute = n mod 3600 div 60, second = n mod 60\<rparr>
           = duration_text n"
  using fmt_hms [OF assms]
  by (simp add: render_datetime_def duration_text_def hhmmss_def)

lemma normalize_datetime_cases:
  "normalize_datetime d secs =
     (if d + secs div 86400 < 1 \<or> 3652059 < d + secs div 86400 then Inl OverflowError
      else Inr \<lparr>ordinal = d + secs div 86400, hour = secs mod 86400 div 3600,
                minute = secs mod 86400 mod 3600 div 60, second = secs mod 86400 mod 60\<rparr>)"
  by (simp add: normalize_datetime_def MAXORDINAL_def Let_def)

lemma normalize_datetime_cong:
  assumes "d + secs div 86400 = d' + secs' div 86400" "secs mod 86400 = secs' mod 86400"
  shows "normalize_datetime d secs = normalize_datetime d' secs'"
  unfolding normalize_datetime_cases assms ..

lemma normalize_datetime_overflow:
  assumes "d + secs div 86400 < 1 \<or> 3652059 < d + secs div 86400"
  shows "normalize_datetime d secs = Inl OverflowError"
  unfolding normalize_datetime_cases using assms by simp

lemma mk_timedelta_cases:
  "mk_timedelta 0 h m s =
      (if (h * 3600 + m * 60 + s) div 86400 < - 999999999 \<or>
          999999999 < (h * 3600 + m * 60 + s) div 86400 then Inl OverflowError
       else Inr \<lparr>td_days = (h * 3600 + m * 60 + s) div 86400,
                 td_seconds = (h * 3600 + m * 60 + s) mod 86400\<rparr>)"
  unfolding mk_timedelta_def Let_def by (simp only: mult_zero_left add_0)

lemma shift_add_aux:
  fixes b D :: int
  assumes "0 \<le> b" "b < 86400"
  shows "(case (if D div 86400 < - 999999999 \<or> 999999999 < D div 86400 then Inl OverflowError
                else Inr \<lparr>td_days = D div 86400, td_seconds = D mod 86400\<rparr>) of
            Inl e \<Rightarrow> Inl e
          | Inr td \<Rightarrow> normalize_datetime (730120 + td_days td) (b + td_seconds td)) =
           normalize_datetime 730120 (b + D)"
proof -
  define c where "c = (b + D mod 86400) div 86400"
  have c: "0 \<le> c" "c \<le> 1"
    using carry_bounds(1,2) [of b D] assms by (simp_all add: c_def)
  have q: "(b + D) div 86400 = c + D div 86400"
    using div_carry [of b D] by (simp add: c_def)
  show ?thesis
  proof (cases "D div 86400 < - 999999999 \<or> 999999999 < D div 86400")
    case True
    with c q have "730120 + (b + D) div 86400 < 1 \<or> 3652059 < 730120 + (b + D) div 86400"
      by linarith
    then have "normalize_datetime 730120 (b + D) = Inl OverflowError"
      by (rule normalize_datetime_overflow)
    with True show ?thesis by simp
  next
    case False
    have "normalize_datetime (730120 + D div 86400) (b + D mod 86400) =
          normalize_datetime 730120 (b + D)"
    proof (rule normalize_datetime_cong)
      show "730120 + D div 86400 + (b + D mod 86400) div 86400 = 730120 + (b + D) div 86400"
        using q by (simp add: c_def)
      show "(b + D mod 86400) mod 86400 = (b + D) mod 86400" by (rule mod_carry)
    qed
    with False show ?thesis by simp
  qed
qed

lemma shift_add:
  assumes "0 \<le> second_of_day dt" "second_of_day dt < 86400" "ordinal dt = ORDINAL_2000_01_01"
  shows "(case mk_timedelta 0 h m s of Inl e \<Rightarrow> Inl e | Inr td \<Rightarrow> datetime_add dt td) =
           normalize_datetime ORDINAL_2000_01_01 (second_of_day dt + (h * 3600 + m * 60 + s))"
  unfolding mk_timedelta_cases datetime_add_def assms(3) ORDINAL_2000_01_01_def
  using assms(1,2) by (rule shift_add_aux)

lemma shift_sub_aux:
  fixes b D :: int
  assumes "0 \<le> b" "b < 86400"
  shows "(case (if D div 86400 < - 999999999 \<or> 999999999 < D div 86400 then Inl OverflowError
                else Inr \<lparr>td_days = D div 86400, td_seconds = D mod 86400\<rparr>) of
            Inl e \<Rightarrow> Inl e
          | Inr td \<Rightarrow> normalize_datetime (730120 - td_days td) (b - td_seconds td)) =
           normalize_datetime 730120 (b - D)"
proof -
  define c where "c = (b - D mod 86400) div 86400"
  have c: "- 1 \<le> c" "c \<le> 0"
    using carry_bounds(3,4) [of b D] assms by (simp_all add: c_def)
  have q: "(b - D) div 86400 = c - D div 86400"
    using div_borrow [of b D] by (simp add: c_def)
  show ?thesis
  proof (cases "D div 86400 < - 999999999 \<or> 999999999 < D div 86400")
    case True
    with c q have "730120 + (b - D) div 86400 < 1 \<or> 3652059 < 730120 + (b - D) div 86400"
      by linarith
    then have "normalize_datetime 730120 (b - D) = Inl OverflowError"
      by (rule normalize_datetime_overflow)
    with True show ?thesis by simp
  next
    case False
    have "normalize_datetime (730120 - D div 86400) (b - D mod 86400) =
          normalize_datetime 730120 (b - D)"
    proof (rule normalize_datetime_cong)
      show "730120 - D div 86400 + (b - D mod 86400) div 86400 = 730120 + (b - D) div 86400"
        using q by (simp add: c_def)
      show "(b - D mod 86400) mod 86400 = (b - D) mod 86400" by (rule mod_borrow)
    qed
    with False show ?thesis by simp
  qed
qed

lemma shift_sub:
  assumes "0 \<le> second_of_day dt" "second_of_day dt < 86400" "ordinal dt = ORDINAL_2000_01_01"
  shows "(case mk_timedelta 0 h m s of Inl e \<Rightarrow> Inl e | Inr td \<Rightarrow> datetime_sub dt td) =
           normalize_datetime ORDINAL_2000_01_01 (second_of_day dt - (h * 3600 + m * 60 + s))"
  unfolding mk_timedelta_cases datetime_sub_def assms(3) ORDINAL_2000_01_01_def
  using assms(1,2) by (rule shift_sub_aux)

lemma seconds_of_bounds:
  assumes "in_range (hours t) (minutes t) (seconds t)"
  shows "0 \<le> seconds_of t" "seconds_of t < 86400"
  using assms by (simp_all add: in_range_bounds seconds_of_def)

lemma datetime_2000_parsed:
  assumes "parse_time s = Some t"
  shows "datetime_2000 (hours t) (minutes t) (seconds t) =
           Inr \<lparr>ordinal = ORDINAL_2000_01_01, hour = hours t, minute = minutes t, second = seconds t\<rparr>"
  using parse_time_in_range [OF assms] by (simp add: datetime_2000_def in_range_bounds)

lemma second_of_day_anchor:
  "second_of_day \<lparr>ordinal = d, hour = hours t, minute = minutes t, second = seconds t\<rparr> = seconds_of t"
  by (simp add: second_of_day_def seconds_of_def)

lemma sum_case_assoc:
  "(case x of Inl e \<Rightarrow> Inl e | Inr v \<Rightarrow> (case f v of Inl e \<Rightarrow> Inl e | Inr w \<Rightarrow> g w)) =
   (case (case x of Inl e \<Rightarrow> Inl e | Inr v \<Rightarrow> f v) of Inl e \<Rightarrow> Inl e | Inr w \<Rightarrow> g w)"
  by (cases x) simp_all

lemma add_time_body_parsed:
  assumes "parse_time s = Some t"
  shows "add_time_body s h m sec =
           (case normalize_datetime ORDINAL_2000_01_01 (seconds_of t + (h * 3600 + m * 60 + sec)) of
              Inl e \<Rightarrow> Inl e | Inr dt' \<Rightarrow> Inr (render_datetime dt'))"
proof -
  let ?dt = "\<lparr>ordinal = ORDINAL_2000_01_01, hour = hours t, minute = minutes t, second = seconds t\<rparr>"
  have a: "anchored s = Inr ?dt"
    by (simp add: anchored_def assms datetime_2000_parsed [OF assms])
  have b: "0 \<le> second_of_day ?dt" "second_of_day ?dt < 86400" "ordinal ?dt = ORDINAL_2000_01_01"
    using seconds_of_bounds [OF parse_time_in_range [OF assms]]
    by (simp_all add: second_of_day_anchor)
  show ?thesis
    unfolding add_time_body_def a sum.case sum_case_assoc shift_add [OF b] second_of_day_anchor ..
qed

lemma subtract_time_body_parsed:
  assumes "parse_time s = Some t"
  shows "subtract_time_body s h m sec =
           (case normalize_datetime ORDINAL_2000_01_01 (seconds_of t - (h * 3600 + m * 60 + sec)) of
              Inl e \<Rightarrow> Inl e | Inr dt' \<Rightarrow> Inr (render_datetime dt'))"
proof -
  let ?dt = "\<lparr>ordinal = ORDINAL_2000_01_01, hour = hours t, minute = minutes t, second = seconds t\<rparr>"
  have a: "anchored s = Inr ?dt"
    by (simp add: anchored_def assms datetime_2000_parsed [OF assms])
  have b: "0 \<le> second_of_day ?dt" "second_of_day ?dt < 86400" "ordinal ?dt = ORDINAL_2000_01_01"
    using seconds_of_bounds [OF parse_time_in_range [OF assms]]
    by (simp_all add: second_of_day_anchor)
  show ?thesis
    unfolding subtract_time_body_def a sum.case sum_case_assoc shift_sub [OF b] second_of_day_anchor ..
qed

lemma subtract_time_body_add:
  "subtract_time_body s h m sec = add_time_body s (- h) (- m) (- sec)"
proof (cases "parse_time s")
  case None
  then have "anchored s = Inl AttributeError" by (simp add: anchored_def)
  then show ?thesis by (simp add: subtract_time_body_def add_time_body_def)
next
  case (Some t)
  have "seconds_of t - (h * 3600 + m * 60 + sec) =
        seconds_of t + (- h * 3600 + - m * 60 + - sec)" by simp
  then show ?thesis
    by (simp only: subtract_time_body_parsed [OF Some] add_time_body_parsed [OF Some])
qed

lemma add_time_in_range:
  assumes "parse_time s = Some t"
    and "- 730119 \<le> (seconds_of t + (h * 3600 + m * 60 + sec)) div 86400"
    and "(seconds_of t + (h * 3600 + m * 60 + sec)) div 86400 \<le> 2921939"
  shows "add_time s h m sec =
           Some (duration_text ((seconds_of t + (h * 3600 + m * 60 + sec)) mod 86400))"
proof -
  define n where "n = seconds_of t + (h * 3600 + m * 60 + sec)"
  have r: "0 \<le> n mod 86400" "n mod 86400 < 86400" by simp_all
  from assms(2,3) have "\<not> (730120 + n div 86400 < 1 \<or> 3652059 < 730120 + n div 86400)"
    unfolding n_def [symmetric] by linarith
  then have "normalize_datetime ORDINAL_2000_01_01 n =
      Inr \<lparr>ordinal = 730120 + n div 86400, hour = n mod 86400 div 3600,
           minute = n mod 86400 mod 3600 div 60, second = n mod 86400 mod 60\<rparr>"
    unfolding normalize_datetime_cases ORDINAL_2000_01_01_def by (rule if_not_P)
  then show ?thesis
    unfolding add_time_def add_time_body_parsed [OF assms(1)] n_def [symmetric]
    by (simp add: validate_time_def render_datetime_text [OF r])
qed

lemma mk_timedelta_small:
  assumes "0 \<le> d * 86400 + x" "d * 86400 + x < 86400"
  shows "mk_timedelta d 0 0 x = Inr \<lparr>td_days = 0, td_seconds = d * 86400 + x\<rparr>"
proof -
  have "(d * 86400 + x) div 86400 = 0" "(d * 86400 + x) mod 86400 = d * 86400 + x"
    using assms by (simp_all only: div_pos_pos_trivial mod_pos_pos_trivial)
  then show ?thesis
    unfolding mk_timedelta_def Let_def
    by (simp only: mult_zero_left add_0_right) simp
qed

lemma mk_timedelta_negative:
  assumes "- 86400 \<le> x" "x < 0"
  shows "mk_timedelta 0 0 0 x = Inr \<lparr>td_days = - 1, td_seconds = x + 86400\<rparr>"
proof -
  have e: "x = 86400 * (- 1) + (x + 86400)" by simp
  have "x div 86400 = - 1"
    using e by (rule int_div_pos_eq) (use assms in simp_all)
  moreover have "x mod 86400 = x + 86400"
    using e by (rule int_mod_pos_eq) (use assms in simp_all)
  ultimately show ?thesis
    unfolding mk_timedelta_def Let_def
    by (simp only: mult_zero_left add_0_right add_0) simp
qed

lemma abs_difference:
  assumes "0 \<le> a" "a < 86400" "0 \<le> b" "b < 86400"
  shows "(case mk_timedelta 0 0 0 (b - a) of Inl e \<Rightarrow> Inl e | Inr d \<Rightarrow> timedelta_abs d) =
           Inr \<lparr>td_days = 0, td_seconds = \<bar>b - a\<bar>\<rparr>"
proof (cases "a \<le> b")
  case True
  with assms have "0 \<le> 0 * 86400 + (b - a)" "0 * 86400 + (b - a) < 86400" by simp_all
  from mk_timedelta_small [OF this] True show ?thesis
    by (simp add: timedelta_abs_def)
next
  case False
  with assms have "- 86400 \<le> b - a" "b - a < 0" by simp_all
  note d = mk_timedelta_negative [OF this]
  from False assms have "0 \<le> 1 * 86400 + - (b - a + 86400)" "1 * 86400 + - (b - a + 86400) < 86400"
    by simp_all
  from mk_timedelta_small [OF this] have "mk_timedelta 1 0 0 (- (b - a + 86400)) =
      Inr \<lparr>td_days = 0, td_seconds = a - b\<rparr>" by simp
  with False show ?thesis
    by (simp add: d timedelta_abs_def)
qed

lemma time_difference_parsed:
  assumes "parse_time s1 = Some t1" "parse_time s2 = Some t2"
  shows "time_difference s1 s2 = Some (duration_text \<bar>seconds_of t2 - seconds_of t1\<bar>)"
proof -
  note b1 = seconds_of_bounds [OF parse_time_in_range [OF assms(1)]]
  note b2 = seconds_of_bounds [OF parse_time_in_range [OF assms(2)]]
  have r: "0 \<le> \<bar>seconds_of t2 - seconds_of t1\<bar>" "\<bar>seconds_of t2 - seconds_of t1\<bar> < 86400"
    using b1 b2 by simp_all
  show ?thesis
    unfolding time_difference_def time_difference_body_def assms option.case
      datetime_2000_parsed [OF assms(1)] datetime_2000_parsed [OF assms(2)] sum.case
      datetime_diff_def second_of_day_anchor sum_case_assoc
    by (simp add: abs_difference [OF b1 b2] validate_time_def render_seconds_text [OF r])
qed

lemma hms_recompose:
  fixes n :: int
  shows "n div 3600 * 3600 + n mod 3600 div 60 * 60 + n mod 60 = n"
proof -
  have "n mod 3600 div 60 * 60 + n mod 3600 mod 60 = n mod 3600" by (rule div_mult_mod_eq)
  moreover have "n mod 3600 mod 60 = n mod 60" by (simp add: mod_mod_cancel)
  moreover have "n div 3600 * 3600 + n mod 3600 = n" by (rule div_mult_mod_eq)
  ultimately show ?thesis by linarith
qed

lemma next_day:
  assumes "0 \<le> second_of_day dt" "second_of_day dt < 86400" "ordinal dt = ORDINAL_2000_01_01"
  shows "\<exists>dt'. (case mk_timedelta 1 0 0 0 of Inl e \<Rightarrow> Inl e | Inr day \<Rightarrow> datetime_add dt day) = Inr dt' \<and>
           ordinal dt' = ORDINAL_2000_01_01 + 1 \<and> second_of_day dt' = second_of_day dt"
proof -
  define b where "b = second_of_day dt"
  let ?dt' = "\<lparr>ordinal = ORDINAL_2000_01_01 + 1, hour = b div 3600, minute = b mod 3600 div 60,
               second = b mod 60\<rparr>"
  have d: "mk_timedelta 1 0 0 0 = Inr \<lparr>td_days = 1, td_seconds = 0\<rparr>"
    by (simp add: mk_timedelta_def)
  have "b div 86400 = 0" "b mod 86400 = b"
    using assms(1,2) unfolding b_def by (simp_all only: div_pos_pos_trivial mod_pos_pos_trivial)
  then have n: "normalize_datetime (ORDINAL_2000_01_01 + 1) b = Inr ?dt'"
    unfolding normalize_datetime_cases by (simp add: ORDINAL_2000_01_01_def)
  have s: "second_of_day ?dt' = b"
    unfolding second_of_day_def by (simp add: hms_recompose)
  have "datetime_add dt \<lparr>td_days = 1, td_seconds = 0\<rparr> = normalize_datetime (ORDINAL_2000_01_01 + 1) b"
    by (simp add: datetime_add_def assms(3) b_def)
  then have a: "(case mk_timedelta 1 0 0 0 of Inl e \<Rightarrow> Inl e | Inr day \<Rightarrow> datetime_add dt day) = Inr ?dt'"
    unfolding d sum.case n .
  show ?thesis
    using a s unfolding b_def [symmetric] by (intro exI [of _ ?dt'] conjI) simp_all
qed

lemma calculate_duration_parsed:
  assumes "parse_time s1 = Some t1" "parse_time s2 = Some t2"
  shows "calculate_duration s1 s2 =
           Some (duration_text ((if seconds_of t2 < seconds_of t1 then seconds_of t2 + 86400
                                 else seconds_of t2) - seconds_of t1))"
proof -
  let ?d1 = "\<lparr>ordinal = ORDINAL_2000_01_01, hour = hours t1, minute = minutes t1, second = seconds t1\<rparr>"
  let ?d2 = "\<lparr>ordinal = ORDINAL_2000_01_01, hour = hours t2, minute = minutes t2, second = seconds t2\<rparr>"
  note b1 = seconds_of_bounds [OF parse_time_in_range [OF assms(1)]]
  note b2 = seconds_of_bounds [OF parse_time_in_range [OF assms(2)]]
  have body: "calculate_duration_body s1 s2 =
      (case (if datetime_less ?d2 ?d1
             then (case mk_timedelta 1 0 0 0 of Inl e \<Rightarrow> Inl e | Inr day \<Rightarrow> datetime_add ?d2 day)
             else Inr ?d2) of Inl e \<Rightarrow> Inl e | Inr end_dt \<Rightarrow>
       (case datetime_diff end_dt ?d1 of Inl e \<Rightarrow> Inl e | Inr duration \<Rightarrow>
          Inr (render_seconds (td_seconds duration))))"
    unfolding calculate_duration_body_def assms option.case
      datetime_2000_parsed [OF assms(1)] datetime_2000_parsed [OF assms(2)] sum.case ..
  have less: "datetime_less ?d2 ?d1 \<longleftrightarrow> seconds_of t2 < seconds_of t1"
    by (simp add: datetime_less_def second_of_day_anchor)
  show ?thesis
  proof (cases "seconds_of t2 < seconds_of t1")
    case True
    have "0 \<le> second_of_day ?d2" "second_of_day ?d2 < 86400" "ordinal ?d2 = ORDINAL_2000_01_01"
      using b2 by (simp_all add: second_of_day_anchor)
    from next_day [OF this] obtain dt' where
      dt': "(case mk_timedelta 1 0 0 0 of Inl e \<Rightarrow> Inl e | Inr day \<Rightarrow> datetime_add ?d2 day) = Inr dt'"
        "ordinal dt' = ORDINAL_2000_01_01 + 1" "second_of_day dt' = seconds_of t2"
      by (auto simp: second_of_day_anchor)
    from True b1 b2 have r: "0 \<le> 1 * 86400 + (seconds_of t2 - seconds_of t1)"
      "1 * 86400 + (seconds_of t2 - seconds_of t1) < 86400" by simp_all
    have "datetime_diff dt' ?d1 =
        Inr \<lparr>td_days = 0, td_seconds = 1 * 86400 + (seconds_of t2 - seconds_of t1)\<rparr>"
      unfolding datetime_diff_def dt'(2,3) second_of_day_anchor
      using mk_timedelta_small [OF r] by simp
    with True r show ?thesis
      unfolding calculate_duration_def body less
      by (simp add: dt'(1) validate_time_def render_seconds_text algebra_simps)
  next
    case False
    with b1 b2 have r: "0 \<le> 0 * 86400 + (seconds_of t2 - seconds_of t1)"
      "0 * 86400 + (seconds_of t2 - seconds_of t1) < 86400" by simp_all
    have "datetime_diff ?d2 ?d1 =
        Inr \<lparr>td_days = 0, td_seconds = 0 * 86400 + (seconds_of t2 - seconds_of t1)\<rparr>"
      unfolding datetime_diff_def second_of_day_anchor
      using mk_timedelta_small [OF r] by simp
    with False r show ?thesis
      unfolding calculate_duration_def body less
      by (simp add: validate_time_def render_seconds_text)
  qed
qed

text \<open>
  C6, as the specification states it, fails on the code: the arithmetic is done on a
  \<open>datetime\<close> of the year 2000, and a duration that carries the date out of the years 1
  to 9999 makes the addition raise \<open>OverflowError\<close>, so that nothing is rendered.
\<close>

theorem add_time_overflow_counterexample:
  "parse_time ''00:00:00'' = Some (mk_Time 0 0 0) \<and>
   add_time ''00:00:00'' 100000000 0 0 = None"
  by code_simp

text \<open>
  C6, amended. For every text that the parser accepts and all signed hours, minutes and
  seconds such that the base time plus the duration stays between 730119 days before
  and 2921939 days after the day of the base time (the years 1 to 9999, counted from
  2000-01-01), \<open>add_time\<close> returns the zero-padded \<open>HH:MM:SS\<close> form of the base time in
  seconds plus the duration, modulo 24 hours. \<open>subtract_time\<close> is \<open>add_time\<close> with the
  duration negated, on every input. Twenty minutes after 23:50:00 is 00:10:00, and
  twenty minutes before 00:10:00 is 23:50:00.
\<close>

theorem add_time_wraps:
  "(parse_time s = Some t \<and>
    - 730119 \<le> (seconds_of t + (h * 3600 + m * 60 + sec)) div 86400 \<and>
    (seconds_of t + (h * 3600 + m * 60 + sec)) div 86400 \<le> 2921939 \<longrightarrow>
      add_time s h m sec =
        Some (duration_text ((seconds_of t + (h * 3600 + m * 60 + sec)) mod 86400))) \<and>
   subtract_time s h m sec = add_time s (- h) (- m) (- sec) \<and>
   add_time ''23:50:00'' 0 20 0 = Some ''00:10:00'' \<and>
   subtract_time ''00:10:00'' 0 20 0 = Some ''23:50:00''"
proof -
  have "subtract_time s h m sec = add_time s (- h) (- m) (- sec)"
    by (simp only: subtract_time_def add_time_def subtract_time_body_add)
  moreover have "add_time ''23:50:00'' 0 20 0 = Some ''00:10:00''" by code_simp
  moreover have "subtract_time ''00:10:00'' 0 20 0 = Some ''23:50:00''" by code_simp
  ultimately show ?thesis
    using add_time_in_range [of s t h m sec] by blast
qed

theorem add_time_wraps_witness:
  "(parse_time ''00:10:00'' = Some (mk_Time 0 10 0) \<and>
    - 730119 \<le> (seconds_of (mk_Time 0 10 0) + (0 * 3600 + (- 20) * 60 + 0)) div 86400 \<and>
    (seconds_of (mk_Time 0 10 0) + (0 * 3600 + (- 20) * 60 + 0)) div 86400 \<le> 2921939) \<and>
   add_time ''00:10:00'' 0 (- 20) 0 =
     Some (duration_text ((seconds_of (mk_Time 0 10 0) + (0 * 3600 + (- 20) * 60 + 0)) mod 86400)) \<and>
   duration_text ((seconds_of (mk_Time 0 10 0) + (0 * 3600 + (- 20) * 60 + 0)) mod 86400) = ''23:50:00''"
proof -
  have h: "parse_time ''00:10:00'' = Some (mk_Time 0 10 0) \<and>
    - 730119 \<le> (seconds_of (mk_Time 0 10 0) + (0 * 3600 + (- 20) * 60 + 0)) div 86400 \<and>
    (seconds_of (mk_Time 0 10 0) + (0 * 3600 + (- 20) * 60 + 0)) div 86400 \<le> 2921939"
    by code_simp
  have v: "duration_text ((seconds_of (mk_Time 0 10 0) + (0 * 3600 + (- 20) * 60 + 0)) mod 86400) =
      ''23:50:00''"
    by code_simp
  from h add_time_wraps [of "''00:10:00''" "mk_Time 0 10 0" 0 "- 20" 0, THEN conjunct1, THEN mp, OF h] v
  show ?thesis by (intro conjI) (elim conjE, assumption)+
qed

text \<open>
  C7. For all texts \<open>a\<close> and \<open>b\<close> that the parser accepts, \<open>time_difference a b\<close> and
  \<open>time_difference b a\<close> are the same text: the zero-padded \<open>HH:MM:SS\<close> form of the
  absolute difference of the two times in seconds, which is at least 0 and below 24
  hours.
\<close>

theorem time_difference_symmetric:
  "parse_time a = Some ta \<and> parse_time b = Some tb \<longrightarrow>
     time_difference a b = time_difference b a \<and>
     time_difference a b = Some (duration_text \<bar>seconds_of tb - seconds_of ta\<bar>) \<and>
     0 \<le> \<bar>seconds_of tb - seconds_of ta\<bar> \<and> \<bar>seconds_of tb - seconds_of ta\<bar> < 86400"
proof (intro impI, elim conjE)
  assume a: "parse_time a = Some ta" and b: "parse_time b = Some tb"
  note ba = seconds_of_bounds [OF parse_time_in_range [OF a]]
  note bb = seconds_of_bounds [OF parse_time_in_range [OF b]]
  have "\<bar>seconds_of tb - seconds_of ta\<bar> = \<bar>seconds_of ta - seconds_of tb\<bar>" by simp
  then have "time_difference a b = time_difference b a"
    by (simp only: time_difference_parsed [OF a b] time_difference_parsed [OF b a])
  moreover have "\<bar>seconds_of tb - seconds_of ta\<bar> < 86400" using ba bb by simp
  ultimately show "time_difference a b = time_difference b a \<and>
     time_difference a b = Some (duration_text \<bar>seconds_of tb - seconds_of ta\<bar>) \<and>
     0 \<le> \<bar>seconds_of tb - seconds_of ta\<bar> \<and> \<bar>seconds_of tb - seconds_of ta\<bar> < 86400"
    using time_difference_parsed [OF a b] by simp
qed

theorem time_difference_symmetric_witness:
  "(parse_time ''10:00'' = Some (mk_Time 10 0 0) \<and> parse_time ''08:30:15'' = Some (mk_Time 8 30 15)) \<and>
   (time_difference ''10:00'' ''08:30:15'' = time_difference ''08:30:15'' ''10:00'' \<and>
    time_difference ''10:00'' ''08:30:15'' =
      Some (duration_text \<bar>seconds_of (mk_Time 8 30 15) - seconds_of (mk_Time 10 0 0)\<bar>) \<and>
    0 \<le> \<bar>seconds_of (mk_Time 8 30 15) - seconds_of (mk_Time 10 0 0)\<bar> \<and>
    \<bar>seconds_of (mk_Time 8 30 15) - seconds_of (mk_Time 10 0 0)\<bar> < 86400) \<and>
   duration_text \<bar>seconds_of (mk_Time 8 30 15) - seconds_of (mk_Time 10 0 0)\<bar> = ''01:29:45''"
proof -
  have h: "parse_time ''10:00'' = Some (mk_Time 10 0 0) \<and>
           parse_time ''08:30:15'' = Some (mk_Time 8 30 15)"
    by code_simp
  have v: "duration_text \<bar>seconds_of (mk_Time 8 30 15) - seconds_of (mk_Time 10 0 0)\<bar> = ''01:29:45''"
    by code_simp
  from h time_difference_symmetric [of "''10:00''" "mk_Time 10 0 0" "''08:30:15''" "mk_Time 8 30 15",
      THEN mp, OF h] v
  show ?thesis by (intro conjI) (elim conjE, assumption)+
qed

text \<open>
  C8. For all start and end texts that the parser accepts, \<open>calculate_duration\<close> takes an
  end earlier than the start as being on the following day, that is 24 hours later, and
  returns the zero-padded \<open>HH:MM:SS\<close> form of the end minus the start; this difference is
  at least 0 and below 24 hours. From 22:00:00 to 02:00:00 it is 04:00:00.
\<close>

theorem calculate_duration_rollover:
  "(parse_time start = Some ts \<and> parse_time end0 = Some te \<longrightarrow>
      calculate_duration start end0 =
        Some (duration_text ((if seconds_of te < seconds_of ts then seconds_of te + 86400
                              else seconds_of te) - seconds_of ts)) \<and>
      0 \<le> (if seconds_of te < seconds_of ts then seconds_of te + 86400 else seconds_of te) -
           seconds_of ts \<and>
      (if seconds_of te < seconds_of ts then seconds_of te + 86400 else seconds_of te) -
           seconds_of ts < 86400) \<and>
   calculate_duration ''22:00:00'' ''02:00:00'' = Some ''04:00:00''"
proof (intro conjI impI)
  show "calculate_duration ''22:00:00'' ''02:00:00'' = Some ''04:00:00''" by code_simp
next
  assume h: "parse_time start = Some ts \<and> parse_time end0 = Some te"
  then have a: "parse_time start = Some ts" and b: "parse_time end0 = Some te" by simp_all
  note bs = seconds_of_bounds [OF parse_time_in_range [OF a]]
  note be = seconds_of_bounds [OF parse_time_in_range [OF b]]
  show "calculate_duration start end0 =
        Some (duration_text ((if seconds_of te < seconds_of ts then seconds_of te + 86400
                              else seconds_of te) - seconds_of ts))"
    by (rule calculate_duration_parsed [OF a b])
  show "0 \<le> (if seconds_of te < seconds_of ts then seconds_of te + 86400 else seconds_of te) -
           seconds_of ts"
    using bs be by simp
  show "(if seconds_of te < seconds_of ts then seconds_of te + 86400 else seconds_of te) -
           seconds_of ts < 86400"
    using bs be by simp
qed

theorem calculate_duration_rollover_witness:
  "(parse_time ''23:15'' = Some (mk_Time 23 15 0) \<and> parse_time ''06:45:30'' = Some (mk_Time 6 45 30)) \<and>
   calculate_duration ''23:15'' ''06:45:30'' = Some ''07:30:30''"
proof -
  have h: "parse_time ''23:15'' = Some (mk_Time 23 15 0) \<and>
           parse_time ''06:45:30'' = Some (mk_Time 6 45 30)"
    by code_simp
  have v: "duration_text ((if seconds_of (mk_Time 6 45 30) < seconds_of (mk_Time 23 15 0)
                           then seconds_of (mk_Time 6 45 30) + 86400
                           else seconds_of (mk_Time 6 45 30)) - seconds_of (mk_Time 23 15 0)) =
           ''07:30:30''"
    by code_simp
  from calculate_duration_rollover [of "''23:15''" "mk_Time 23 15 0" "''06:45:30''" "mk_Time 6 45 30",
      THEN conjunct1, THEN mp, OF h, THEN conjunct1]
  have "calculate_duration ''23:15'' ''06:45:30'' = Some ''07:30:30''"
    unfolding v .
  with h show ?thesis by (intro conjI) (elim conjE, assumption)+
qed

text \<open>
  C9, as the specification states it, fails on the code: the end is moved to the
  following day only when it is strictly earlier than the start, so an end equal to the
  start gives a duration of zero.
\<close>

theorem calculate_duration_same_counterexample:
  "parse_time ''10:00:00'' = Some (mk_Time 10 0 0) \<and>
   calculate_duration ''10:00:00'' ''10:00:00'' = Some ''00:00:00'' \<and>
   calculate_duration ''10:00:00'' ''10:00:00'' \<noteq> Some ''24:00:00''"
  by code_simp

text \<open>
  C9, amended. For all start and end texts that the parser accepts and that give the
  same time, in particular for the same text given twice, \<open>calculate_duration\<close> yields
  \<open>00:00:00\<close>.
\<close>

theorem calculate_duration_same:
  "parse_time start = Some ts \<and> parse_time end0 = Some te \<and> seconds_of ts = seconds_of te \<longrightarrow>
     calculate_duration start end0 = Some ''00:00:00''"
proof (intro impI, elim conjE)
  assume a: "parse_time start = Some ts" and b: "parse_time end0 = Some te"
    and e: "seconds_of ts = seconds_of te"
  have z: "duration_text 0 = ''00:00:00''" by code_simp
  show "calculate_duration start end0 = Some ''00:00:00''"
    unfolding calculate_duration_parsed [OF a b] e by (simp add: z)
qed

theorem calculate_duration_same_witness:
  "(parse_time ''09:30'' = Some (mk_Time 9 30 0) \<and> parse_time ''09:30'' = Some (mk_Time 9 30 0) \<and>
    seconds_of (mk_Time 9 30 0) = seconds_of (mk_Time 9 30 0)) \<and>
   calculate_duration ''09:30'' ''09:30'' = Some ''00:00:00''"
proof -
  have h: "parse_time ''09:30'' = Some (mk_Time 9 30 0) \<and> parse_time ''09:30'' = Some (mk_Time 9 30 0) \<and>
    seconds_of (mk_Time 9 30 0) = seconds_of (mk_Time 9 30 0)"
    by code_simp
  from h calculate_duration_same [of "''09:30''" "mk_Time 9 30 0" "''09:30''" "mk_Time 9 30 0", THEN mp, OF h]
  show ?thesis by (intro conjI) (elim conjE, assumption)+
qed

section \<open>The matcher and what a pattern denotes\<close>

lemma matches_sound:
  "(p', s', g') \<in> set (matches ic r (p, s, g)) \<Longrightarrow>
     \<exists>w. s = w @ s' \<and> p' = p + length w \<and> denotes ic r p w s'"
proof (induction r arbitrary: p s g p' s' g')
  case (Lit a)
  then show ?case by (cases s) (auto split: if_splits)
next
  case (Range lo hi)
  then show ?case by (cases s) (auto split: if_splits)
next
  case (Seq a b)
  from Seq.prems obtain p1 s1 g1 where
    1: "(p1, s1, g1) \<in> set (matches ic a (p, s, g))" and
    2: "(p', s', g') \<in> set (matches ic b (p1, s1, g1))"
    by auto
  from Seq.IH(1) [OF 1] obtain u where u: "s = u @ s1" "p1 = p + length u" "denotes ic a p u s1"
    by blast
  from Seq.IH(2) [OF 2] obtain v where v: "s1 = v @ s'" "p' = p1 + length v" "denotes ic b p1 v s'"
    by blast
  from u v have "s = (u @ v) @ s'" "p' = p + length (u @ v)"
    "denotes ic a p u (v @ s')" "denotes ic b (p + length u) v s'"
    by simp_all
  then show ?case
    unfolding denotes.simps by blast
next
  case (Alt a b)
  from Alt.prems have "(p', s', g') \<in> set (matches ic a (p, s, g)) \<or>
      (p', s', g') \<in> set (matches ic b (p, s, g))"
    by auto
  then show ?case
  proof
    assume "(p', s', g') \<in> set (matches ic a (p, s, g))"
    from Alt.IH(1) [OF this] show ?thesis by auto
  next
    assume "(p', s', g') \<in> set (matches ic b (p, s, g))"
    from Alt.IH(2) [OF this] show ?thesis by auto
  qed
next
  case (Opt a)
  from Opt.prems have "(p', s', g') \<in> set (matches ic a (p, s, g)) \<or> (p', s', g') = (p, s, g)"
    by auto
  then show ?case
  proof
    assume "(p', s', g') \<in> set (matches ic a (p, s, g))"
    from Opt.IH [OF this] show ?thesis by auto
  next
    assume "(p', s', g') = (p, s, g)"
    then show ?thesis by simp
  qed
next
  case (Group n a)
  from Group.prems obtain g0 where "(p', s', g0) \<in> set (matches ic a (p, s, g))"
    by auto
  from Group.IH [OF this] show ?case by simp
next
  case Bol
  then show ?case by (auto split: if_splits)
next
  case Eol
  then show ?case by (auto split: if_splits)
qed

lemma matches_complete:
  "denotes ic r p w s' \<Longrightarrow> \<exists>g'. (p + length w, s', g') \<in> set (matches ic r (p, w @ s', g))"
proof (induction r arbitrary: p w s' g)
  case (Lit a)
  then show ?case by auto
next
  case (Range lo hi)
  then show ?case by auto
next
  case (Seq a b)
  from Seq.prems obtain u v where w: "w = u @ v" and
    a: "denotes ic a p u (v @ s')" and b: "denotes ic b (p + length u) v s'"
    by auto
  from Seq.IH(1) [OF a, of g] obtain g1 where
    1: "(p + length u, v @ s', g1) \<in> set (matches ic a (p, u @ v @ s', g))" by blast
  from Seq.IH(2) [OF b, of g1] obtain g2 where
    2: "(p + length u + length v, s', g2) \<in> set (matches ic b (p + length u, v @ s', g1))" by blast
  from 1 2 have "(p + length w, s', g2) \<in> set (matches ic (Seq a b) (p, w @ s', g))"
    unfolding w by (auto simp: add.assoc)
  then show ?case by blast
next
  case (Alt a b)
  from Alt.prems have "denotes ic a p w s' \<or> denotes ic b p w s'" by simp
  then show ?case
  proof
    assume "denotes ic a p w s'"
    from Alt.IH(1) [OF this, of g] show ?thesis by auto
  next
    assume "denotes ic b p w s'"
    from Alt.IH(2) [OF this, of g] show ?thesis by auto
  qed
next
  case (Opt a)
  from Opt.prems have "denotes ic a p w s' \<or> w = []" by simp
  then show ?case
  proof
    assume "denotes ic a p w s'"
    from Opt.IH [OF this, of g] show ?thesis by auto
  next
    assume "w = []"
    then show ?thesis by auto
  qed
next
  case (Group n a)
  from Group.prems have "denotes ic a p w s'" by simp
  from Group.IH [OF this, of g] obtain g' where
    "(p + length w, s', g') \<in> set (matches ic a (p, w @ s', g))" by blast
  then have "(p + length w, s', g'(n \<mapsto> take (p + length w - p) (w @ s'))) \<in>
      set (matches ic (Group n a) (p, w @ s', g))"
    by (force simp: image_iff)
  then show ?case by blast
next
  case Bol
  then show ?case by auto
next
  case Eol
  then show ?case by auto
qed

lemma re_match_accepts_iff:
  "re_match ic r s \<noteq> None \<longleftrightarrow> (\<exists>w s'. s = w @ s' \<and> denotes ic r 0 w s')"
proof
  assume "re_match ic r s \<noteq> None"
  then obtain p' s' g' where "(p', s', g') \<in> set (matches ic r (0, s, Map.empty))"
    by (cases "matches ic r (0, s, Map.empty)") (auto simp: re_match_def)
  from matches_sound [OF this] show "\<exists>w s'. s = w @ s' \<and> denotes ic r 0 w s'" by auto
next
  assume "\<exists>w s'. s = w @ s' \<and> denotes ic r 0 w s'"
  then obtain w s' where s: "s = w @ s'" and d: "denotes ic r 0 w s'" by blast
  from matches_complete [OF d, of Map.empty] have "matches ic r (0, s, Map.empty) \<noteq> []"
    unfolding s by auto
  then show "re_match ic r s \<noteq> None"
    by (cases "matches ic r (0, s, Map.empty)") (auto simp: re_match_def)
qed

section \<open>Characters, and the texts of each part of the pattern\<close>

lemma char_eq_code: "c = d \<longleftrightarrow> (of_char c :: nat) = of_char d"
  by simp

lemma to_lower_code:
  "(of_char (to_lower c) :: nat) = (if 65 \<le> (of_char c :: nat) \<and> (of_char c :: nat) \<le> 90 then of_char c + 32 else of_char c)"
  by (auto simp: to_lower_def less_eq_char_def)

lemma to_upper_code:
  "(of_char (to_upper c) :: nat) = (if 97 \<le> (of_char c :: nat) \<and> (of_char c :: nat) \<le> 122 then of_char c - 32 else of_char c)"
  by (auto simp: to_upper_def less_eq_char_def)

lemma lit_matches_code:
  "lit_matches ic a c \<longleftrightarrow>
     (of_char c :: nat) = of_char a \<or> (ic \<and> (of_char (to_lower c) :: nat) = of_char (to_lower a))"
  by (simp add: lit_matches_def)

lemma range_matches_code:
  "range_matches ic lo hi c \<longleftrightarrow>
     ((of_char lo :: nat) \<le> of_char c \<and> (of_char c :: nat) \<le> of_char hi) \<or>
     (ic \<and> (((of_char lo :: nat) \<le> of_char (to_lower c) \<and> (of_char (to_lower c) :: nat) \<le> of_char hi) \<or>
            ((of_char lo :: nat) \<le> of_char (to_upper c) \<and> (of_char (to_upper c) :: nat) \<le> of_char hi)))"
  by (simp add: range_matches_def less_eq_char_def)

lemma lit_colon: "lit_matches True CHR '':'' c \<longleftrightarrow> c = CHR '':''"
  unfolding lit_matches_code to_lower_code char_eq_code [of c] by simp

lemma lit_space: "lit_matches True CHR '' '' c \<longleftrightarrow> c = CHR '' ''"
  unfolding lit_matches_code to_lower_code char_eq_code [of c] by simp

lemma lit_0: "lit_matches True CHR ''0'' c \<longleftrightarrow> c = CHR ''0''"
  unfolding lit_matches_code to_lower_code char_eq_code [of c] by simp

lemma lit_1: "lit_matches True CHR ''1'' c \<longleftrightarrow> c = CHR ''1''"
  unfolding lit_matches_code to_lower_code char_eq_code [of c] by simp

lemma lit_A: "lit_matches True CHR ''A'' c \<longleftrightarrow> c = CHR ''A'' \<or> c = CHR ''a''"
  unfolding lit_matches_code to_lower_code char_eq_code [of c] by auto

lemma lit_M: "lit_matches True CHR ''M'' c \<longleftrightarrow> c = CHR ''M'' \<or> c = CHR ''m''"
  unfolding lit_matches_code to_lower_code char_eq_code [of c] by auto

lemma lit_P: "lit_matches True CHR ''P'' c \<longleftrightarrow> c = CHR ''P'' \<or> c = CHR ''p''"
  unfolding lit_matches_code to_lower_code char_eq_code [of c] by auto

lemma digit_char_eq: "k < 10 \<Longrightarrow> c = digit_char k \<longleftrightarrow> (of_char c :: nat) = 48 + k"
  unfolding char_eq_code [of c] by (simp add: of_char_digit_char)

lemma range_digits:
  assumes "a \<le> b" "b < 10"
  shows "range_matches True (digit_char a) (digit_char b) c \<longleftrightarrow> (\<exists>k. a \<le> k \<and> k \<le> b \<and> c = digit_char k)"
proof -
  have "(\<exists>k. a \<le> k \<and> k \<le> b \<and> c = digit_char k) \<longleftrightarrow> 48 + a \<le> (of_char c :: nat) \<and> (of_char c :: nat) \<le> 48 + b"
  proof
    assume "\<exists>k. a \<le> k \<and> k \<le> b \<and> c = digit_char k"
    then obtain k where "a \<le> k" "k \<le> b" "c = digit_char k" by blast
    with assms show "48 + a \<le> (of_char c :: nat) \<and> (of_char c :: nat) \<le> 48 + b"
      by (simp add: of_char_digit_char)
  next
    assume r: "48 + a \<le> (of_char c :: nat) \<and> (of_char c :: nat) \<le> 48 + b"
    define k where "k = (of_char c :: nat) - 48"
    from r assms have "a \<le> k" "k \<le> b" "k < 10" "(of_char c :: nat) = 48 + k"
      unfolding k_def by linarith+
    then show "\<exists>k. a \<le> k \<and> k \<le> b \<and> c = digit_char k"
      using digit_char_eq [of k c] by blast
  qed
  moreover from assms have "a < 10" by simp
  ultimately show ?thesis
    unfolding range_matches_code to_lower_code to_upper_code
    using assms by (auto simp: of_char_digit_char)
qed

lemma minute_texts_digits:
  "minute_texts = {[digit_char a, digit_char b] | a b. a \<le> 5 \<and> b \<le> 9}"
proof (intro set_eqI iffI)
  fix w assume "w \<in> minute_texts"
  then obtain m where m: "0 \<le> m" "m < 60" "w = two_digits m"
    by (auto simp: minute_texts_def)
  then have "nat m div 10 \<le> 5" "nat m mod 10 \<le> 9" by simp_all
  with m(3) show "w \<in> {[digit_char a, digit_char b] | a b. a \<le> 5 \<and> b \<le> 9}"
    unfolding two_digits_def by blast
next
  fix w assume "w \<in> {[digit_char a, digit_char b] | a b. a \<le> 5 \<and> b \<le> 9}"
  then obtain a b where ab: "a \<le> 5" "b \<le> 9" "w = [digit_char a, digit_char b]" by blast
  define m where "m = int (10 * a + b)"
  have n: "nat m = 10 * a + b" unfolding m_def by (rule nat_int)
  from ab have "nat m div 10 = a" "nat m mod 10 = b" unfolding n by simp_all
  moreover from ab have "0 \<le> m" "m < 60" by (simp_all add: m_def)
  ultimately have "0 \<le> m \<and> m < 60 \<and> w = two_digits m"
    using ab(3) by (simp add: two_digits_def)
  then show "w \<in> minute_texts"
    unfolding minute_texts_def by blast
qed

lemma hour_texts_digits:
  "hour_texts = {[digit_char k] | k. 1 \<le> k \<and> k \<le> 9} \<union>
                {[CHR ''0'', digit_char k] | k. 1 \<le> k \<and> k \<le> 9} \<union>
                {[CHR ''1'', digit_char k] | k. k \<le> 2}"
  (is "_ = ?A \<union> ?B \<union> ?C")
proof (intro set_eqI iffI)
  fix w assume "w \<in> hour_texts"
  then obtain z h where h: "1 \<le> h" "h \<le> 12" "w = hour_text z h"
    by (auto simp: hour_texts_def)
  show "w \<in> ?A \<union> ?B \<union> ?C"
  proof (cases "h < 10")
    case True
    with h have "1 \<le> nat h" "nat h \<le> 9" by simp_all
    moreover from True h have "w = [digit_char (nat h)] \<or> w = [CHR ''0'', digit_char (nat h)]"
      by (simp add: hour_text_def plain_digits_def)
    ultimately show ?thesis by blast
  next
    case False
    with h have "h = 10 \<or> h = 11 \<or> h = 12" by linarith
    then have "nat h div 10 = 1 \<and> nat h mod 10 \<le> 2" by (elim disjE) simp_all
    moreover from False h have "w = [digit_char (nat h div 10), digit_char (nat h mod 10)]"
      by (simp add: hour_text_def plain_digits_def two_digits_def)
    ultimately have "w = [CHR ''1'', digit_char (nat h mod 10)] \<and> nat h mod 10 \<le> 2"
      by (simp add: digit_char_numerals(2) [unfolded One_nat_def])
    then show ?thesis by blast
  qed
next
  fix w assume "w \<in> ?A \<union> ?B \<union> ?C"
  then consider k where "1 \<le> k" "k \<le> 9" "w = [digit_char k]"
    | k where "1 \<le> k" "k \<le> 9" "w = [CHR ''0'', digit_char k]"
    | k where "k \<le> 2" "w = [CHR ''1'', digit_char k]"
    by blast
  then show "w \<in> hour_texts"
  proof cases
    case 1
    then have "1 \<le> int k \<and> int k \<le> 12 \<and> w = hour_text False (int k)"
      by (simp add: hour_text_def plain_digits_def)
    then show ?thesis unfolding hour_texts_def by blast
  next
    case 2
    then have "1 \<le> int k \<and> int k \<le> 12 \<and> w = hour_text True (int k)"
      by (simp add: hour_text_def plain_digits_def)
    then show ?thesis unfolding hour_texts_def by blast
  next
    case 3
    have n: "nat (int (10 + k)) = 10 + k" by (rule nat_int)
    from 3 have "nat (int (10 + k)) div 10 = 1" "nat (int (10 + k)) mod 10 = k"
      unfolding n by simp_all
    with 3 have "1 \<le> int (10 + k) \<and> int (10 + k) \<le> 12 \<and> w = hour_text False (int (10 + k))"
      unfolding hour_text_def plain_digits_def two_digits_def
      by (simp add: digit_char_numerals(2) [unfolded One_nat_def])
    then show ?thesis unfolding hour_texts_def by blast
  qed
qed

lemmas range_digit_chars =
  range_digits [of 0 5, unfolded digit_char_numerals] range_digits [of 0 9, unfolded digit_char_numerals]
  range_digits [of 1 9, unfolded digit_char_numerals] range_digits [of 0 2, unfolded digit_char_numerals]

lemma denotes_Seq_Lit:
  "denotes ic (Seq (Lit a) r) p w s' \<longleftrightarrow>
     (\<exists>c v. w = c # v \<and> lit_matches ic a c \<and> denotes ic r (Suc p) v s')"
proof
  assume "denotes ic (Seq (Lit a) r) p w s'"
  then obtain u v c where "w = u @ v" "u = [c]" "lit_matches ic a c"
    "denotes ic r (p + length u) v s'"
    by auto
  then have "w = c # v \<and> lit_matches ic a c \<and> denotes ic r (Suc p) v s'" by simp
  then show "\<exists>c v. w = c # v \<and> lit_matches ic a c \<and> denotes ic r (Suc p) v s'" by blast
next
  assume "\<exists>c v. w = c # v \<and> lit_matches ic a c \<and> denotes ic r (Suc p) v s'"
  then obtain c v where "w = c # v" "lit_matches ic a c" "denotes ic r (Suc p) v s'" by blast
  then have "w = [c] @ v \<and> denotes ic (Lit a) p [c] (v @ s') \<and> denotes ic r (p + length [c]) v s'"
    by simp
  then show "denotes ic (Seq (Lit a) r) p w s'"
    unfolding denotes.simps(3) by blast
qed

lemma denotes_Seq_Range:
  "denotes ic (Seq (Range lo hi) r) p w s' \<longleftrightarrow>
     (\<exists>c v. w = c # v \<and> range_matches ic lo hi c \<and> denotes ic r (Suc p) v s')"
proof
  assume "denotes ic (Seq (Range lo hi) r) p w s'"
  then obtain u v c where "w = u @ v" "u = [c]" "range_matches ic lo hi c"
    "denotes ic r (p + length u) v s'"
    by auto
  then have "w = c # v \<and> range_matches ic lo hi c \<and> denotes ic r (Suc p) v s'" by simp
  then show "\<exists>c v. w = c # v \<and> range_matches ic lo hi c \<and> denotes ic r (Suc p) v s'" by blast
next
  assume "\<exists>c v. w = c # v \<and> range_matches ic lo hi c \<and> denotes ic r (Suc p) v s'"
  then obtain c v where "w = c # v" "range_matches ic lo hi c" "denotes ic r (Suc p) v s'" by blast
  then have "w = [c] @ v \<and> denotes ic (Range lo hi) p [c] (v @ s') \<and>
      denotes ic r (p + length [c]) v s'"
    by simp
  then show "denotes ic (Seq (Range lo hi) r) p w s'"
    unfolding denotes.simps(3) by blast
qed

lemma denotes_Seq_Opt:
  "denotes ic (Seq (Opt a) r) p w s' \<longleftrightarrow> denotes ic (Seq a r) p w s' \<or> denotes ic r p w s'"
proof
  assume "denotes ic (Seq (Opt a) r) p w s'"
  then obtain u v where "w = u @ v" "denotes ic a p u (v @ s') \<or> u = []"
    "denotes ic r (p + length u) v s'"
    by auto
  then show "denotes ic (Seq a r) p w s' \<or> denotes ic r p w s'"
    by auto
next
  assume "denotes ic (Seq a r) p w s' \<or> denotes ic r p w s'"
  then show "denotes ic (Seq (Opt a) r) p w s'"
  proof
    assume "denotes ic (Seq a r) p w s'"
    then show ?thesis by auto
  next
    assume "denotes ic r p w s'"
    then have "w = [] @ w \<and> denotes ic (Opt a) p [] (w @ s') \<and> denotes ic r (p + length ([]::string)) w s'"
      by simp
    then show ?thesis unfolding denotes.simps(3) by blast
  qed
qed

lemma denotes_Seq_Alt:
  "denotes ic (Seq (Alt a b) r) p w s' \<longleftrightarrow> denotes ic (Seq a r) p w s' \<or> denotes ic (Seq b r) p w s'"
  by auto

lemma denotes_Seq_Group:
  "denotes ic (Seq (Group n a) r) p w s' \<longleftrightarrow> denotes ic (Seq a r) p w s'"
  by simp

lemma denotes_Seq_Seq:
  "denotes ic (Seq (Seq a b) r) p w s' \<longleftrightarrow> denotes ic (Seq a (Seq b r)) p w s'"
proof
  assume "denotes ic (Seq (Seq a b) r) p w s'"
  then obtain u v x y where "w = u @ v" "u = x @ y" "denotes ic a p x (y @ v @ s')"
    "denotes ic b (p + length x) y (v @ s')" "denotes ic r (p + length u) v s'"
    by auto
  then have "w = x @ (y @ v)" "denotes ic a p x ((y @ v) @ s')"
    "denotes ic b (p + length x) y (v @ s')" "denotes ic r (p + length x + length y) v s'"
    by (simp_all add: add.assoc)
  then show "denotes ic (Seq a (Seq b r)) p w s'"
    unfolding denotes.simps by blast
next
  assume "denotes ic (Seq a (Seq b r)) p w s'"
  then obtain x t y v where "w = x @ t" "t = y @ v" "denotes ic a p x (t @ s')"
    "denotes ic b (p + length x) y (v @ s')" "denotes ic r (p + length x + length y) v s'"
    by auto
  then have "w = (x @ y) @ v" "denotes ic a p x (y @ v @ s')"
    "denotes ic b (p + length x) y (v @ s')" "denotes ic r (p + length (x @ y)) v s'"
    by (simp_all add: add.assoc)
  then show "denotes ic (Seq (Seq a b) r) p w s'"
    unfolding denotes.simps by blast
qed

lemma denotes_minute_group: "denotes True minute_group p w s' \<longleftrightarrow> w \<in> minute_texts"
  unfolding minute_group_def minute_texts_digits denotes.simps(6) denotes_Seq_Range
  by (simp add: range_digit_chars) blast

lemma denotes_second_group: "denotes True second_group p w s' \<longleftrightarrow> w \<in> digit_texts \<union> minute_texts"
  unfolding second_group_def minute_texts_digits digit_texts_def denotes.simps(6)
    denotes_Seq_Opt denotes_Seq_Range
  by (simp add: range_digit_chars) blast

lemma denotes_hour_group: "denotes True hour_group p w s' \<longleftrightarrow> w \<in> hour_texts"
  unfolding hour_group_def hour_texts_digits denotes.simps(4,6)
    denotes_Seq_Opt denotes_Seq_Range denotes_Seq_Lit
proof (simp add: range_digit_chars lit_0 lit_1, intro iffI, goal_cases)
  case 1
  then show ?case by (elim disjE exE conjE) (simp_all, blast+)
next
  case 2
  then show ?case by (elim disjE exE conjE) (simp_all, blast+)
qed

lemma denotes_period_group: "denotes True period_group p w s' \<longleftrightarrow> w \<in> meridiem_texts"
  unfolding period_group_def meridiem_texts_def am_texts_def pm_texts_def denotes.simps(4,6)
    denotes_Seq_Lit
proof (simp add: lit_A lit_M lit_P, intro iffI, goal_cases)
  case 1
  then show ?case by (elim disjE exE conjE) simp_all
next
  case 2
  then show ?case by (elim disjE) simp_all
qed

section \<open>Running the matcher on the accepted texts\<close>

lemma standard_time_pattern_tail:
  "standard_time_pattern =
     Seq Bol (Seq hour_group (Seq (Lit CHR '':'') (Seq minute_group second_tail)))"
  by (simp add: standard_time_pattern_def second_tail_def space_period_def)

lemmas char_tests =
  range_matches_code lit_matches_code to_lower_code to_upper_code of_char_digit_char

lemma matches_minute:
  assumes "a \<le> 5" "b \<le> 9"
  shows "matches True (Seq minute_group R) (p, digit_char a # digit_char b # rest, g) =
           matches True R (Suc (Suc p), rest, g(2 \<mapsto> [digit_char a, digit_char b]))"
  using assms by (simp add: minute_group_def char_tests)

lemma matches_hour_one:
  assumes "1 \<le> k" "k \<le> 9"
  shows "matches True (Seq hour_group (Seq (Lit CHR '':'') R)) (p, digit_char k # CHR '':'' # rest, g) =
           matches True R (Suc (Suc p), rest, g(1 \<mapsto> [digit_char k]))"
  using assms by (simp add: hour_group_def char_tests)

lemma matches_hour_zero:
  assumes "1 \<le> k" "k \<le> 9"
  shows "matches True (Seq hour_group (Seq (Lit CHR '':'') R))
            (p, CHR ''0'' # digit_char k # CHR '':'' # rest, g) =
           matches True R (Suc (Suc (Suc p)), rest, g(1 \<mapsto> [CHR ''0'', digit_char k]))"
  using assms by (simp add: hour_group_def char_tests)

lemma matches_hour_ten:
  assumes "k \<le> 2"
  shows "matches True (Seq hour_group (Seq (Lit CHR '':'') R))
            (p, CHR ''1'' # digit_char k # CHR '':'' # rest, g) =
           matches True R (Suc (Suc (Suc p)), rest, g(1 \<mapsto> [CHR ''1'', digit_char k]))"
  using assms by (simp add: hour_group_def char_tests)

lemma matches_space_period:
  assumes "p \<in> meridiem_texts" "nl = [] \<or> nl = [CHR 0x0A]"
  shows "matches True space_period (q, (if sp then '' '' else []) @ p @ nl, g) =
           [(q + (if sp then 1 else 0) + 2, nl, g(4 \<mapsto> p))]"
  using assms unfolding meridiem_texts_def am_texts_def pm_texts_def
  by (cases sp) (auto simp: space_period_def period_group_def char_tests)

lemma matches_second_tail_none:
  assumes "c \<in> tail_start"
  shows "matches True second_tail (q, c # rest, g) = matches True space_period (q, c # rest, g)"
  using assms unfolding tail_start_def
  by (elim insertE emptyE) (simp_all add: second_tail_def second_group_def char_tests)

lemma matches_second_tail_colon:
  assumes "c \<in> tail_start"
  shows "matches True second_tail (q, CHR '':'' # c # rest, g) =
           matches True space_period (Suc q, c # rest, g)"
  using assms unfolding tail_start_def
  by (elim insertE emptyE)
    (simp_all add: second_tail_def second_group_def space_period_def period_group_def char_tests)

lemma matches_second_tail_two:
  assumes "a \<le> 5" "b \<le> 9"
  shows "matches True second_tail (q, digit_char a # digit_char b # rest, g) =
           matches True space_period (Suc (Suc q), rest, g(3 \<mapsto> [digit_char a, digit_char b]))"
  using assms
  by (simp add: second_tail_def second_group_def space_period_def period_group_def char_tests)

lemma matches_second_tail_colon_two:
  assumes "a \<le> 5" "b \<le> 9"
  shows "matches True second_tail (q, CHR '':'' # digit_char a # digit_char b # rest, g) =
           matches True space_period (Suc (Suc (Suc q)), rest, g(3 \<mapsto> [digit_char a, digit_char b]))"
  using assms
  by (simp add: second_tail_def second_group_def space_period_def period_group_def char_tests)

lemma matches_second_tail_one:
  assumes "k \<le> 9" "c \<in> tail_start"
  shows "matches True second_tail (q, digit_char k # c # rest, g) =
           matches True space_period (Suc q, c # rest, g(3 \<mapsto> [digit_char k]))"
  using assms unfolding tail_start_def
  by (elim insertE emptyE)
    (simp_all add: second_tail_def second_group_def space_period_def period_group_def char_tests)

lemma matches_second_tail_colon_one:
  assumes "k \<le> 9" "c \<in> tail_start"
  shows "matches True second_tail (q, CHR '':'' # digit_char k # c # rest, g) =
           matches True space_period (Suc (Suc q), c # rest, g(3 \<mapsto> [digit_char k]))"
  using assms unfolding tail_start_def
  by (elim insertE emptyE)
    (simp_all add: second_tail_def second_group_def space_period_def period_group_def char_tests)

lemma matches_hour:
  assumes "hs \<in> hour_texts"
  shows "matches True (Seq hour_group (Seq (Lit CHR '':'') R)) (p, hs @ CHR '':'' # rest, g) =
           matches True R (Suc (p + length hs), rest, g(1 \<mapsto> hs))"
proof -
  from assms consider k where "1 \<le> k" "k \<le> 9" "hs = [digit_char k]"
    | k where "1 \<le> k" "k \<le> 9" "hs = [CHR ''0'', digit_char k]"
    | k where "k \<le> 2" "hs = [CHR ''1'', digit_char k]"
    unfolding hour_texts_digits by blast
  then show ?thesis
  proof cases
    case 1
    then show ?thesis by (simp del: matches.simps add: matches_hour_one)
  next
    case 2
    then show ?thesis by (simp del: matches.simps add: matches_hour_zero)
  next
    case 3
    then show ?thesis by (simp del: matches.simps add: matches_hour_ten)
  qed
qed

lemma matches_minutes:
  assumes "ms \<in> minute_texts"
  shows "matches True (Seq minute_group R) (p, ms @ rest, g) =
           matches True R (Suc (Suc p), rest, g(2 \<mapsto> ms))"
proof -
  from assms obtain a b where "a \<le> 5" "b \<le> 9" "ms = [digit_char a, digit_char b]"
    unfolding minute_texts_digits by blast
  then show ?thesis by (simp del: matches.simps add: matches_minute)
qed

lemma tail_starts:
  assumes "p \<in> meridiem_texts"
  shows "\<exists>c r. (if sp then '' '' else []) @ p @ nl = c # r \<and> c \<in> tail_start"
  using assms unfolding meridiem_texts_def am_texts_def pm_texts_def tail_start_def
  by (cases sp) (elim UnE insertE emptyE; simp)+

lemma matches_tail:
  assumes "c = [] \<or> c = '':''" "sec \<in> insert [] (digit_texts \<union> minute_texts)"
    "p \<in> meridiem_texts" "nl = [] \<or> nl = [CHR 0x0A]"
  shows "\<exists>n. matches True second_tail (q, c @ sec @ (if sp then '' '' else []) @ p @ nl, g) =
           [(n, nl, (if sec = [] then g else g(3 \<mapsto> sec))(4 \<mapsto> p))]"
proof -
  define t where "t = (if sp then '' '' else []) @ p @ nl"
  from tail_starts [OF assms(3), of sp nl] obtain c0 r where t: "t = c0 # r" "c0 \<in> tail_start"
    unfolding t_def by blast
  have fin: "\<exists>n. matches True space_period (q', t, g') = [(n, nl, g'(4 \<mapsto> p))]" for q' g'
    unfolding t_def matches_space_period [OF assms(3,4)] by blast
  from assms(2) consider "sec = []" | k where "k \<le> 9" "sec = [digit_char k]"
    | a b where "a \<le> 5" "b \<le> 9" "sec = [digit_char a, digit_char b]"
    unfolding minute_texts_digits digit_texts_def by blast
  then show ?thesis
  proof cases
    case 1
    from assms(1) show ?thesis
    proof
      assume "c = []"
      with 1 fin [of q g] show ?thesis
        unfolding t_def [symmetric] t(1)
        by (simp del: matches.simps add: matches_second_tail_none [OF t(2)])
    next
      assume "c = '':''"
      with 1 fin [of "Suc q" g] show ?thesis
        unfolding t_def [symmetric] t(1)
        by (simp del: matches.simps add: matches_second_tail_colon [OF t(2)])
    qed
  next
    case 2
    from assms(1) show ?thesis
    proof
      assume "c = []"
      with 2 fin [of "Suc q" "g(3 \<mapsto> sec)"] show ?thesis
        unfolding t_def [symmetric] t(1)
        by (simp del: matches.simps add: matches_second_tail_one [OF 2(1) t(2)])
    next
      assume "c = '':''"
      with 2 fin [of "Suc (Suc q)" "g(3 \<mapsto> sec)"] show ?thesis
        unfolding t_def [symmetric] t(1)
        by (simp del: matches.simps add: matches_second_tail_colon_one [OF 2(1) t(2)])
    qed
  next
    case 3
    from assms(1) show ?thesis
    proof
      assume "c = []"
      with 3 fin [of "Suc (Suc q)" "g(3 \<mapsto> sec)"] show ?thesis
        unfolding t_def [symmetric]
        by (simp del: matches.simps add: matches_second_tail_two [OF 3(1,2)])
    next
      assume "c = '':''"
      with 3 fin [of "Suc (Suc (Suc q))" "g(3 \<mapsto> sec)"] show ?thesis
        unfolding t_def [symmetric]
        by (simp del: matches.simps add: matches_second_tail_colon_two [OF 3(1,2)])
    qed
  qed
qed

lemma matches_Seq_Bol: "matches ic (Seq Bol r) (0, s, g) = matches ic r (0, s, g)"
  by simp

lemma re_match_accepted:
  assumes "hs \<in> hour_texts" "ms \<in> minute_texts" "c = [] \<or> c = '':''"
    "sec \<in> insert [] (digit_texts \<union> minute_texts)" "p \<in> meridiem_texts"
    "nl = [] \<or> nl = [CHR 0x0A]"
  shows "re_match True standard_time_pattern
           (hs @ '':'' @ ms @ c @ sec @ (if sp then '' '' else []) @ p @ nl) =
         Some ((if sec = [] then [1 \<mapsto> hs, 2 \<mapsto> ms] else [1 \<mapsto> hs, 2 \<mapsto> ms, 3 \<mapsto> sec])(4 \<mapsto> p))"
proof -
  define t where "t = c @ sec @ (if sp then '' '' else []) @ p @ nl"
  have "matches True standard_time_pattern (0, hs @ CHR '':'' # ms @ t, Map.empty) =
        matches True second_tail (Suc (Suc (Suc (0 + length hs))), t, [1 \<mapsto> hs, 2 \<mapsto> ms])"
    unfolding standard_time_pattern_tail matches_Seq_Bol
      matches_hour [OF assms(1)] matches_minutes [OF assms(2)] ..
  moreover from matches_tail [OF assms(3,4,5,6), of "Suc (Suc (Suc (0 + length hs)))" sp "[1 \<mapsto> hs, 2 \<mapsto> ms]"]
  obtain n where "matches True second_tail (Suc (Suc (Suc (0 + length hs))), t, [1 \<mapsto> hs, 2 \<mapsto> ms]) =
      [(n, nl, (if sec = [] then [1 \<mapsto> hs, 2 \<mapsto> ms] else [1 \<mapsto> hs, 2 \<mapsto> ms, 3 \<mapsto> sec])(4 \<mapsto> p))]"
    unfolding t_def by blast
  ultimately have "re_match True standard_time_pattern (hs @ CHR '':'' # ms @ t) =
      Some ((if sec = [] then [1 \<mapsto> hs, 2 \<mapsto> ms] else [1 \<mapsto> hs, 2 \<mapsto> ms, 3 \<mapsto> sec])(4 \<mapsto> p))"
    unfolding re_match_def by simp
  then show ?thesis unfolding t_def by simp
qed

section \<open>From the 12-hour to the 24-hour form\<close>

lemma hour_text_in_hour_texts: "1 \<le> h \<Longrightarrow> h \<le> 12 \<Longrightarrow> hour_text z h \<in> hour_texts"
  unfolding hour_texts_def by blast

lemma two_digits_in_minute_texts: "0 \<le> m \<Longrightarrow> m < 60 \<Longrightarrow> two_digits m \<in> minute_texts"
  unfolding minute_texts_def by blast

lemma py_int_hour_text:
  assumes "1 \<le> h" "h \<le> 12"
  shows "py_int (hour_text z h) = Some h"
proof (cases "h < 10")
  case True
  with assms have d: "nat h div 10 = 0" "nat h mod 10 = nat h" by simp_all
  from True assms have "CHR ''0'' # plain_digits h = two_digits h"
    by (simp add: plain_digits_def two_digits_def d digit_char_numerals)
  with True assms show ?thesis
    using py_int_two_digits [of h] py_int_plain_digit [of h]
    by (simp add: hour_text_def plain_digits_def)
next
  case False
  with assms show ?thesis
    using py_int_two_digits [of h] by (simp add: hour_text_def plain_digits_def)
qed

lemma decimal_value_two_digits:
  assumes "0 \<le> x" "x < 100"
  shows "decimal_value (two_digits x) = x"
proof -
  from assms have "nat x div 10 < 10" "nat x mod 10 < 10" by simp_all
  then have "decimal_value (two_digits x) = int (10 * (nat x div 10) + nat x mod 10)"
    by (simp add: decimal_value_def two_digits_def digit_val_digit_char)
  also have "\<dots> = x" using assms by simp
  finally show ?thesis .
qed

lemma second_text_value:
  assumes "sec \<in> digit_texts \<union> minute_texts"
  shows "py_int sec = Some (decimal_value sec) \<and> 0 \<le> decimal_value sec \<and> decimal_value sec < 60 \<and> sec \<noteq> []"
proof -
  from assms consider k where "k \<le> 9" "sec = [digit_char k]"
    | x where "0 \<le> x" "x < 60" "sec = two_digits x"
    unfolding digit_texts_def minute_texts_def by blast
  then show ?thesis
  proof cases
    case 1
    then have "decimal_value sec = int k"
      by (simp add: decimal_value_def digit_val_digit_char)
    with 1 show ?thesis
      using py_int_plain_digit [of "int k"] by simp
  next
    case 2
    then show ?thesis
      using py_int_two_digits [of x] decimal_value_two_digits [of x]
      by (simp add: two_digits_def)
  qed
qed

lemma upper_chars:
  "to_upper CHR ''A'' = CHR ''A''" "to_upper CHR ''a'' = CHR ''A''"
  "to_upper CHR ''M'' = CHR ''M''" "to_upper CHR ''m'' = CHR ''M''"
  "to_upper CHR ''P'' = CHR ''P''" "to_upper CHR ''p'' = CHR ''P''"
  by code_simp+

lemma upper_meridiem:
  assumes "p \<in> meridiem_texts"
  shows "(map to_upper p = ''PM'' \<longleftrightarrow> p \<in> pm_texts) \<and> (map to_upper p = ''AM'' \<longleftrightarrow> p \<in> am_texts)"
  using assms unfolding meridiem_texts_def am_texts_def pm_texts_def
  by (elim UnE insertE emptyE) (simp_all add: upper_chars)

lemma military_hour_bounds:
  assumes "1 \<le> h" "h \<le> 12"
  shows "0 \<le> military_hour h p" "military_hour h p < 100"
  using assms by (simp_all add: military_hour_def)

lemma standard_to_military_time_accepted:
  assumes "1 \<le> h" "h \<le> 12" "0 \<le> m" "m < 60" "c = [] \<or> c = '':''"
    "sec \<in> insert [] (digit_texts \<union> minute_texts)" "p \<in> meridiem_texts"
    "nl = [] \<or> nl = [CHR 0x0A]"
  shows "standard_to_military_time
           (hour_text z h @ '':'' @ two_digits m @ c @ sec @ (if sp then '' '' else []) @ p @ nl) =
         Some (hhmmss (military_hour h p) m (decimal_value sec))"
proof -
  note m = re_match_accepted [OF hour_text_in_hour_texts [OF assms(1,2)]
      two_digits_in_minute_texts [OF assms(3,4)] assms(5,6,7,8), of z sp]
  have g1: "int_of_group (Some (hour_text z h)) = Inr h"
    by (simp add: int_of_group_def py_int_hour_text [OF assms(1,2)])
  have g2: "int_of_group (Some (two_digits m)) = Inr m"
    using assms(3,4) by (simp add: int_of_group_def py_int_two_digits)
  have hr: "(if map to_upper p = ''PM'' \<and> h \<noteq> HOURS_IN_HALF_DAY then h + HOURS_IN_HALF_DAY
             else if map to_upper p = ''AM'' \<and> h = HOURS_IN_HALF_DAY then 0 else h) =
            military_hour h p"
    using upper_meridiem [OF assms(7)] by (simp add: military_hour_def HOURS_IN_HALF_DAY_def)
  have fh: "fmt_02d (military_hour h p) = two_digits (military_hour h p)"
    using military_hour_bounds [OF assms(1,2)] by (rule fmt_02d_two_digits)
  have fm: "fmt_02d m = two_digits m"
    using assms(3,4) by (intro fmt_02d_two_digits) simp_all
  show ?thesis
  proof (cases "sec = []")
    case True
    have z: "decimal_value [] = 0" by (simp add: decimal_value_def)
    have fs: "fmt_02d 0 = two_digits 0" by (intro fmt_02d_two_digits) simp_all
    from True show ?thesis
      unfolding standard_to_military_time_def standard_to_military_time_body_def m
      by (simp add: g1 g2 hr fh fm fs z Let_def validate_time_def hhmmss_def)
  next
    case False
    with assms(6) have "sec \<in> digit_texts \<union> minute_texts" by simp
    note v = second_text_value [OF this]
    have g3: "int_of_group (Some sec) = Inr (decimal_value sec)"
      using v by (simp add: int_of_group_def)
    have fs: "fmt_02d (decimal_value sec) = two_digits (decimal_value sec)"
      using v by (intro fmt_02d_two_digits) simp_all
    from False show ?thesis
      unfolding standard_to_military_time_def standard_to_military_time_body_def m
      by (simp add: g1 g2 g3 hr fh fm fs Let_def validate_time_def hhmmss_def)
  qed
qed

lemma standard_to_military_time_standard_text:
  assumes "1 \<le> h" "h \<le> 12" "0 \<le> m" "m < 60" "\<forall>x. so = Some x \<longrightarrow> 0 \<le> x \<and> x < 60"
    "p \<in> meridiem_texts"
  shows "standard_to_military_time (standard_text z h m so sp p) =
           Some (hhmmss (military_hour h p) m (case so of None \<Rightarrow> 0 | Some x \<Rightarrow> x))"
proof (cases so)
  case None
  have "standard_text z h m so sp p =
        hour_text z h @ '':'' @ two_digits m @ [] @ [] @ (if sp then '' '' else []) @ p @ []"
    by (simp add: standard_text_def None)
  moreover have "decimal_value [] = 0" by (simp add: decimal_value_def)
  ultimately show ?thesis
    using standard_to_military_time_accepted [OF assms(1-4) _ _ assms(6), of "[]" "[]" "[]" z sp]
    by (simp add: None)
next
  case (Some x)
  with assms(5) have x: "0 \<le> x" "x < 60" by simp_all
  have t: "standard_text z h m so sp p =
        hour_text z h @ '':'' @ two_digits m @ '':'' @ two_digits x @ (if sp then '' '' else []) @ p @ []"
    by (simp add: standard_text_def Some)
  have "two_digits x \<in> insert [] (digit_texts \<union> minute_texts)"
    using two_digits_in_minute_texts [OF x] by simp
  from standard_to_military_time_accepted [OF assms(1-4) _ this assms(6), of "'':''" "[]" z sp]
  show ?thesis
    unfolding t using x by (simp add: Some decimal_value_two_digits)
qed

section \<open>The texts that the pattern accepts\<close>

lemma concI: "u \<in> A \<Longrightarrow> v \<in> B \<Longrightarrow> u @ v \<in> conc A B"
  unfolding conc_def by blast

lemma concE:
  assumes "w \<in> conc A B"
  obtains u v where "w = u @ v" "u \<in> A" "v \<in> B"
  using assms unfolding conc_def by blast

lemma denotes_Seq_sets:
  assumes "\<And>p w s'. denotes ic a p w s' = (w \<in> A)"
    and "\<And>p w s'. denotes ic r p w s' = (w \<in> B \<and> E s')"
  shows "denotes ic (Seq a r) p w s' = (w \<in> conc A B \<and> E s')"
  unfolding denotes.simps(3) assms conc_def by blast

lemma denotes_Opt_set:
  assumes "\<And>p w s'. denotes ic a p w s' = (w \<in> A)"
  shows "denotes ic (Opt a) p w s' = (w \<in> insert [] A)"
  unfolding denotes.simps(5) assms by blast

lemma denotes_colon: "denotes True (Lit CHR '':'') p w s' = (w \<in> {'':''})"
  by (simp add: lit_colon)

lemma denotes_space: "denotes True (Lit CHR '' '') p w s' = (w \<in> {'' ''})"
  by (simp add: lit_space)

lemma denotes_period_end:
  "denotes True (Seq period_group Eol) p w s' = (w \<in> meridiem_texts \<and> (s' = [] \<or> s' = [CHR 0x0A]))"
  unfolding denotes.simps(3,8) denotes_period_group by auto

lemma denotes_pattern:
  "denotes True standard_time_pattern p w s' =
     (p = 0 \<and> w \<in> accepted_texts \<and> (s' = [] \<or> s' = [CHR 0x0A]))"
proof -
  note t1 = denotes_Seq_sets [OF denotes_Opt_set [OF denotes_space] denotes_period_end]
  note t2 = denotes_Seq_sets [OF denotes_Opt_set [OF denotes_second_group] t1]
  note t3 = denotes_Seq_sets [OF denotes_Opt_set [OF denotes_colon] t2]
  note t4 = denotes_Seq_sets [OF denotes_minute_group t3]
  note t5 = denotes_Seq_sets [OF denotes_colon t4]
  note t6 = denotes_Seq_sets [OF denotes_hour_group t5]
  show ?thesis
    unfolding standard_time_pattern_def accepted_texts_def denotes.simps(3) [of _ Bol] denotes.simps(7) t6
    by auto
qed

lemma re_match_pattern_iff:
  "re_match True standard_time_pattern s \<noteq> None \<longleftrightarrow>
     s \<in> accepted_texts \<or> (\<exists>w \<in> accepted_texts. s = w @ [CHR 0x0A])"
  unfolding re_match_accepts_iff denotes_pattern by auto

lemma body_format_error_iff:
  "standard_to_military_time_body s =
     Inl (TimeFormatError ''Invalid standard time format. Use HH:MM:SS AM/PM.'') \<longleftrightarrow>
   re_match True standard_time_pattern s = None"
  unfolding standard_to_military_time_body_def
  by (simp add: Let_def int_of_group_def split: option.splits sum.splits)

lemma accepted_text_parts:
  assumes "s \<in> accepted_texts"
  obtains z h m c sec sp p where "1 \<le> h" "h \<le> 12" "0 \<le> m" "m < 60" "c = [] \<or> c = '':''"
    "sec \<in> insert [] (digit_texts \<union> minute_texts)" "p \<in> meridiem_texts"
    "s = hour_text z h @ '':'' @ two_digits m @ c @ sec @ (if sp then '' '' else []) @ p"
proof -
  from assms obtain hs r1 where 1: "s = hs @ r1" "hs \<in> hour_texts"
    and r1: "r1 \<in> conc {'':''} (conc minute_texts (conc {[], '':''}
       (conc (insert [] (digit_texts \<union> minute_texts)) (conc {[], '' ''} meridiem_texts))))"
    unfolding accepted_texts_def by (rule concE)
  from r1 obtain c0 r2 where 2: "r1 = c0 @ r2" "c0 \<in> {'':''}"
    and r2: "r2 \<in> conc minute_texts (conc {[], '':''}
       (conc (insert [] (digit_texts \<union> minute_texts)) (conc {[], '' ''} meridiem_texts)))"
    by (rule concE)
  from r2 obtain ms r3 where 3: "r2 = ms @ r3" "ms \<in> minute_texts"
    and r3: "r3 \<in> conc {[], '':''}
       (conc (insert [] (digit_texts \<union> minute_texts)) (conc {[], '' ''} meridiem_texts))"
    by (rule concE)
  from r3 obtain c r4 where 4: "r3 = c @ r4" "c \<in> {[], '':''}"
    and r4: "r4 \<in> conc (insert [] (digit_texts \<union> minute_texts)) (conc {[], '' ''} meridiem_texts)"
    by (rule concE)
  from r4 obtain sec r5 where 5: "r4 = sec @ r5" "sec \<in> insert [] (digit_texts \<union> minute_texts)"
    and r5: "r5 \<in> conc {[], '' ''} meridiem_texts"
    by (rule concE)
  from r5 obtain spt p where 6: "r5 = spt @ p" "spt \<in> {[], '' ''}" "p \<in> meridiem_texts"
    by (rule concE)
  from 1(2) obtain z h where h: "1 \<le> h" "h \<le> 12" "hs = hour_text z h"
    unfolding hour_texts_def by blast
  from 3(2) obtain m where m: "0 \<le> m" "m < 60" "ms = two_digits m"
    unfolding minute_texts_def by blast
  from 6(2) have sp: "spt = (if spt = '' '' then '' '' else [])" by auto
  from 4(2) have c: "c = [] \<or> c = '':''" by simp
  from 2(2) have c0: "c0 = '':''" by simp
  have "s = hour_text z h @ '':'' @ two_digits m @ c @ sec @ (if spt = '' '' then '' '' else []) @ p"
    unfolding 1(1) 2(1) 3(1) 4(1) 5(1) 6(1) h(3) m(3) c0 using sp by simp
  with h(1,2) m(1,2) c 5(2) 6(3) show thesis by (rule that)
qed

lemma standard_to_military_time_matched:
  assumes "re_match True standard_time_pattern s \<noteq> None"
  shows "\<exists>z h m c sec sp p nl. 1 \<le> h \<and> h \<le> 12 \<and> 0 \<le> m \<and> m < 60 \<and> p \<in> meridiem_texts \<and>
           s = hour_text z h @ '':'' @ two_digits m @ c @ sec @ (if sp then '' '' else []) @ p @ nl \<and>
           standard_to_military_time s = Some (hhmmss (military_hour h p) m (decimal_value sec))"
proof -
  from assms obtain w nl where w: "w \<in> accepted_texts" "s = w @ nl" "nl = [] \<or> nl = [CHR 0x0A]"
    unfolding re_match_pattern_iff by auto
  from w(1) obtain z h m c sec sp p where p: "1 \<le> h" "h \<le> 12" "0 \<le> m" "m < 60" "c = [] \<or> c = '':''"
    "sec \<in> insert [] (digit_texts \<union> minute_texts)" "p \<in> meridiem_texts"
    and t: "w = hour_text z h @ '':'' @ two_digits m @ c @ sec @ (if sp then '' '' else []) @ p"
    by (rule accepted_text_parts)
  have s: "s = hour_text z h @ '':'' @ two_digits m @ c @ sec @ (if sp then '' '' else []) @ p @ nl"
    unfolding w(2) t by simp
  from standard_to_military_time_accepted [OF p w(3), of z sp] p(1-4,7) s
  show ?thesis by blast
qed

lemma accepted_textI:
  assumes "1 \<le> h" "h \<le> 12" "0 \<le> m" "m < 60" "c = [] \<or> c = '':''"
    "sec \<in> insert [] (digit_texts \<union> minute_texts)" "p \<in> meridiem_texts"
  shows "hour_text z h @ '':'' @ two_digits m @ c @ sec @ (if sp then '' '' else []) @ p \<in> accepted_texts"
  unfolding accepted_texts_def
  using assms
  by (intro concI hour_text_in_hour_texts two_digits_in_minute_texts) auto

lemma standard_texts_accepted: "standard_texts \<subseteq> accepted_texts"
proof
  fix s assume "s \<in> standard_texts"
  then obtain z h m so sp p where p: "1 \<le> h" "h \<le> 12" "0 \<le> m" "m < 60"
    "\<forall>x. so = Some x \<longrightarrow> 0 \<le> x \<and> x < 60" "p \<in> meridiem_texts"
    and s: "s = standard_text z h m so sp p"
    unfolding standard_texts_def by blast
  show "s \<in> accepted_texts"
  proof (cases so)
    case None
    have "s = hour_text z h @ '':'' @ two_digits m @ [] @ [] @ (if sp then '' '' else []) @ p"
      by (simp add: s standard_text_def None)
    then show ?thesis
      using accepted_textI [OF p(1-4) _ _ p(6), of "[]" "[]" z sp] by simp
  next
    case (Some x)
    with p(5) have "two_digits x \<in> insert [] (digit_texts \<union> minute_texts)"
      using two_digits_in_minute_texts [of x] by simp
    from accepted_textI [OF p(1-4) _ this p(6), of "'':''" z sp]
    show ?thesis by (simp add: s standard_text_def Some)
  qed
qed

lemma digit_char_mod_neq_space: "digit_char (n mod 10) \<noteq> CHR '' ''"
proof -
  have "n mod 10 < 10" by simp
  from of_char_digit_char [OF this] show ?thesis by auto
qed

lemma not_standard_text:
  assumes "s \<in> standard_texts"
  shows "rev s \<noteq> ''MP 5:03:1'' \<and> rev s \<noteq> ''MP 5403:1''"
proof -
  from assms obtain z h m so sp p where b: "0 \<le> m" "m < 60"
    "\<forall>x. so = Some x \<longrightarrow> 0 \<le> x \<and> x < 60" "p \<in> meridiem_texts"
    and s: "s = standard_text z h m so sp p"
    unfolding standard_texts_def by blast
  from b(4) obtain c d where p: "p = [c, d]"
    unfolding meridiem_texts_def am_texts_def pm_texts_def by auto
  define H where "H = rev (hour_text z h)"
  define m1 where "m1 = digit_char (nat m div 10)"
  define m2 where "m2 = digit_char (nat m mod 10)"
  from b(1,2) have "nat m div 10 < 10" by simp
  then have m1: "m1 \<noteq> CHR '':''" unfolding m1_def by (rule digit_char_not_colon)
  have m2: "m2 \<noteq> CHR '' ''" unfolding m2_def by (rule digit_char_mod_neq_space)
  show ?thesis
  proof (cases so)
    case None
    then have "rev s = d # c # (if sp then '' '' else []) @ m2 # m1 # CHR '':'' # H"
      by (simp add: s standard_text_def p two_digits_def H_def m1_def m2_def)
    with m1 m2 show ?thesis by (cases sp) auto
  next
    case (Some x)
    define x1 where "x1 = digit_char (nat x div 10)"
    define x2 where "x2 = digit_char (nat x mod 10)"
    from Some b(3) have "0 \<le> x" "x < 60" by simp_all
    then have "nat x div 10 < 10" by simp
    then have x1: "x1 \<noteq> CHR '':''" unfolding x1_def by (rule digit_char_not_colon)
    have x2: "x2 \<noteq> CHR '' ''" unfolding x2_def by (rule digit_char_mod_neq_space)
    from Some have "rev s = d # c # (if sp then '' '' else []) @ x2 # x1 # CHR '':'' # m2 # m1 # CHR '':'' # H"
      by (simp add: s standard_text_def p two_digits_def H_def m1_def m2_def x1_def x2_def)
    with x1 x2 m1 show ?thesis by (cases sp) auto
  qed
qed

text \<open>
  C3. For every text of the grammar of the 12-hour form (the hour from 1 to 12 with or
  without a leading zero, the two-digit minute, optionally the two-digit second, an
  optional space, \<open>AM\<close> or \<open>PM\<close> in any case), \<open>standard_to_military_time\<close> adds 12 to
  the hour for \<open>PM\<close> unless the hour is 12, turns the hour 12 into 0 for \<open>AM\<close>, keeps the
  hour otherwise, and renders the zero-padded \<open>HH:MM:SS\<close> form, a missing second
  counting as 0. The same holds for every text on which the pattern of the code
  matches at all: it has an hour, a minute, a text of the second and a meridiem, and
  the result is this form of them. Midnight and noon come out as the specification
  lists them.
\<close>

theorem standard_to_military_time_spec:
  "(1 \<le> h \<and> h \<le> 12 \<and> 0 \<le> m \<and> m < 60 \<and> (\<forall>x. so = Some x \<longrightarrow> 0 \<le> x \<and> x < 60) \<and>
    p \<in> meridiem_texts \<longrightarrow>
      standard_to_military_time (standard_text z h m so sp p) =
        Some (hhmmss (military_hour h p) m (case so of None \<Rightarrow> 0 | Some x \<Rightarrow> x))) \<and>
   (re_match True standard_time_pattern s \<noteq> None \<longrightarrow>
      (\<exists>z h m c sec sp p nl. 1 \<le> h \<and> h \<le> 12 \<and> 0 \<le> m \<and> m < 60 \<and> p \<in> meridiem_texts \<and>
         s = hour_text z h @ '':'' @ two_digits m @ c @ sec @ (if sp then '' '' else []) @ p @ nl \<and>
         standard_to_military_time s = Some (hhmmss (military_hour h p) m (decimal_value sec)))) \<and>
   standard_to_military_time ''12:00:00 AM'' = Some ''00:00:00'' \<and>
   standard_to_military_time ''12:00:00 PM'' = Some ''12:00:00''"
proof (intro conjI impI)
  assume "1 \<le> h \<and> h \<le> 12 \<and> 0 \<le> m \<and> m < 60 \<and> (\<forall>x. so = Some x \<longrightarrow> 0 \<le> x \<and> x < 60) \<and>
    p \<in> meridiem_texts"
  then show "standard_to_military_time (standard_text z h m so sp p) =
        Some (hhmmss (military_hour h p) m (case so of None \<Rightarrow> 0 | Some x \<Rightarrow> x))"
    by (intro standard_to_military_time_standard_text) simp_all
next
  assume "re_match True standard_time_pattern s \<noteq> None"
  then show "\<exists>z h m c sec sp p nl. 1 \<le> h \<and> h \<le> 12 \<and> 0 \<le> m \<and> m < 60 \<and> p \<in> meridiem_texts \<and>
         s = hour_text z h @ '':'' @ two_digits m @ c @ sec @ (if sp then '' '' else []) @ p @ nl \<and>
         standard_to_military_time s = Some (hhmmss (military_hour h p) m (decimal_value sec))"
    by (rule standard_to_military_time_matched)
next
  show "standard_to_military_time ''12:00:00 AM'' = Some ''00:00:00''" by code_simp
  show "standard_to_military_time ''12:00:00 PM'' = Some ''12:00:00''" by code_simp
qed

theorem standard_to_military_time_spec_witness:
  "(1 \<le> (1::int) \<and> (1::int) \<le> 12 \<and> 0 \<le> (30::int) \<and> (30::int) < 60 \<and>
    0 \<le> (5::int) \<and> (5::int) < 60 \<and> ''pm'' \<in> meridiem_texts) \<and>
   standard_text True 1 30 (Some 5) True ''pm'' = ''01:30:05 pm'' \<and>
   standard_to_military_time ''01:30:05 pm'' = Some ''13:30:05'' \<and>
   re_match True standard_time_pattern ''7:05:9am'' \<noteq> None \<and>
   (\<exists>z h m c sec sp p nl. 1 \<le> h \<and> h \<le> 12 \<and> 0 \<le> m \<and> m < 60 \<and> p \<in> meridiem_texts \<and>
      ''7:05:9am'' = hour_text z h @ '':'' @ two_digits m @ c @ sec @ (if sp then '' '' else []) @ p @ nl \<and>
      standard_to_military_time ''7:05:9am'' = Some (hhmmss (military_hour h p) m (decimal_value sec)))"
proof -
  have h: "1 \<le> (1::int) \<and> (1::int) \<le> 12 \<and> 0 \<le> (30::int) \<and> (30::int) < 60 \<and>
    (\<forall>x. Some (5::int) = Some x \<longrightarrow> 0 \<le> x \<and> x < 60) \<and> ''pm'' \<in> meridiem_texts"
    by (simp add: meridiem_texts_def pm_texts_def)
  then have h': "1 \<le> (1::int) \<and> (1::int) \<le> 12 \<and> 0 \<le> (30::int) \<and> (30::int) < 60 \<and>
    0 \<le> (5::int) \<and> (5::int) < 60 \<and> ''pm'' \<in> meridiem_texts"
    by simp
  have t: "standard_text True 1 30 (Some 5) True ''pm'' = ''01:30:05 pm''" by code_simp
  have "''pm'' \<in> pm_texts" by (simp add: pm_texts_def)
  then have "military_hour 1 ''pm'' = 13" by (simp add: military_hour_def)
  moreover have "hhmmss 13 30 5 = ''13:30:05''" by code_simp
  ultimately have v: "hhmmss (military_hour 1 ''pm'') 30 (case Some 5 of None \<Rightarrow> 0 | Some x \<Rightarrow> x) =
      ''13:30:05''"
    by simp
  from standard_to_military_time_spec [of 1 30 "Some 5" "''pm''" True True "[]",
      THEN conjunct1, THEN mp, OF h]
  have a: "standard_to_military_time ''01:30:05 pm'' = Some ''13:30:05''"
    unfolding t v .
  have "standard_to_military_time_body ''7:05:9am'' = Inr ''07:05:09''" by code_simp
  then have b: "re_match True standard_time_pattern ''7:05:9am'' \<noteq> None"
    using body_format_error_iff [of "''7:05:9am''"] by simp
  note c = standard_to_military_time_spec [of 1 30 "Some 5" "''pm''" True True "''7:05:9am''",
      THEN conjunct2, THEN conjunct1, THEN mp, OF b]
  from h' t a b c show ?thesis by (intro conjI) (elim conjE, assumption)+
qed

lemma military_hour_standard_hour:
  assumes "0 \<le> h" "h \<le> 23"
  shows "military_hour (standard_hour h) (meridiem h) = h"
  using assms
  by (simp add: military_hour_def standard_hour_def meridiem_def am_texts_def pm_texts_def)

lemma round_trip_parsed:
  assumes "parse_time s = Some t"
  shows "\<exists>r. military_to_standard_time s False = Some r \<and>
             standard_to_military_time r = Some (hhmmss (hours t) (minutes t) (seconds t))"
proof -
  from parse_time_in_range [OF assms]
  have b: "0 \<le> hours t" "hours t \<le> 23" "0 \<le> minutes t" "minutes t < 60"
    "0 \<le> seconds t" "seconds t < 60"
    by (simp_all add: in_range_bounds)
  let ?r = "standard_text False (standard_hour (hours t)) (minutes t) (Some (seconds t)) True
              (meridiem (hours t))"
  have 1: "military_to_standard_time s False = Some ?r"
    by (simp add: military_to_standard_time_render [OF assms] standard_text_def hour_text_def)
  have sh: "1 \<le> standard_hour (hours t)" "standard_hour (hours t) \<le> 12"
    using b(1,2) by (simp_all add: standard_hour_def)
  have mer: "meridiem (hours t) \<in> meridiem_texts"
    by (simp add: meridiem_def meridiem_texts_def am_texts_def pm_texts_def)
  have "standard_to_military_time ?r =
      Some (hhmmss (military_hour (standard_hour (hours t)) (meridiem (hours t))) (minutes t)
             (case Some (seconds t) of None \<Rightarrow> 0 | Some x \<Rightarrow> x))"
    using b(5,6) by (intro standard_to_military_time_standard_text sh b(3,4) mer) simp
  then have 2: "standard_to_military_time ?r = Some (hhmmss (hours t) (minutes t) (seconds t))"
    by (simp add: military_hour_standard_hour [OF b(1,2)])
  from 1 2 show ?thesis by blast
qed

text \<open>
  C1. For every text \<open>s\<close> that the parser accepts as the time \<open>t\<close>,
  \<open>military_to_standard_time\<close> returns a text on which \<open>standard_to_military_time\<close>
  returns the zero-padded \<open>HH:MM:SS\<close> form of \<open>t\<close>; when \<open>s\<close> is itself that form of a
  time in range, the round trip returns \<open>s\<close>.
\<close>

theorem round_trip:
  "(parse_time s = Some t \<longrightarrow>
      (\<exists>r. military_to_standard_time s False = Some r \<and>
           standard_to_military_time r = Some (hhmmss (hours t) (minutes t) (seconds t)))) \<and>
   (0 \<le> h \<and> h \<le> 23 \<and> 0 \<le> m \<and> m \<le> 59 \<and> 0 \<le> sec \<and> sec \<le> 59 \<longrightarrow>
      (\<exists>r. military_to_standard_time (hhmmss h m sec) False = Some r \<and>
           standard_to_military_time r = Some (hhmmss h m sec)))"
proof (intro conjI impI)
  assume "parse_time s = Some t"
  then show "\<exists>r. military_to_standard_time s False = Some r \<and>
           standard_to_military_time r = Some (hhmmss (hours t) (minutes t) (seconds t))"
    by (rule round_trip_parsed)
next
  assume "0 \<le> h \<and> h \<le> 23 \<and> 0 \<le> m \<and> m \<le> 59 \<and> 0 \<le> sec \<and> sec \<le> 59"
  then have "in_range h m sec" by (simp add: in_range_bounds)
  then have "parse_time (hhmmss h m sec) = Some (mk_Time h m sec)"
    by (simp add: parse_time_Some_iff parse_time_body_hhmmss)
  from round_trip_parsed [OF this]
  show "\<exists>r. military_to_standard_time (hhmmss h m sec) False = Some r \<and>
           standard_to_military_time r = Some (hhmmss h m sec)"
    by (simp add: mk_Time_def)
qed

theorem round_trip_witness:
  "(parse_time ''13:30'' = Some (mk_Time 13 30 0) \<and>
    0 \<le> (13::int) \<and> (13::int) \<le> 23 \<and> 0 \<le> (30::int) \<and> (30::int) \<le> 59 \<and>
    0 \<le> (0::int) \<and> (0::int) \<le> 59) \<and>
   (\<exists>r. military_to_standard_time ''13:30'' False = Some r \<and>
        standard_to_military_time r = Some ''13:30:00'') \<and>
   (\<exists>r. military_to_standard_time ''13:30:00'' False = Some r \<and>
        standard_to_military_time r = Some ''13:30:00'')"
proof -
  have p: "parse_time ''13:30'' = Some (mk_Time 13 30 0)" by code_simp
  have r: "0 \<le> (13::int) \<and> (13::int) \<le> 23 \<and> 0 \<le> (30::int) \<and> (30::int) \<le> 59 \<and>
    0 \<le> (0::int) \<and> (0::int) \<le> 59" by simp
  have v: "hhmmss (hours (mk_Time 13 30 0)) (minutes (mk_Time 13 30 0)) (seconds (mk_Time 13 30 0)) =
      ''13:30:00''" "hhmmss 13 30 0 = ''13:30:00''"
    by code_simp+
  note a = round_trip [of "''13:30''" "mk_Time 13 30 0" 13 30 0, THEN conjunct1, THEN mp, OF p,
      unfolded v]
  note b = round_trip [of "''13:30''" "mk_Time 13 30 0" 13 30 0, THEN conjunct2, THEN mp, OF r,
      unfolded v]
  from p r a b show ?thesis by (intro conjI) (elim conjE, assumption)+
qed

text \<open>
  C5, as the specification states it, fails on the code: the pattern makes the colon
  after the minutes and the second optional independently of each other and lets the
  second have one digit, so texts outside the grammar of the specification are accepted
  and converted.
\<close>

theorem standard_time_grammar_counterexample:
  "''1:30:5 PM'' \<notin> standard_texts \<and>
   standard_to_military_time ''1:30:5 PM'' = Some ''13:30:05'' \<and>
   ''1:3045 PM'' \<notin> standard_texts \<and>
   standard_to_military_time ''1:3045 PM'' = Some ''13:30:45''"
proof -
  have "rev ''1:30:5 PM'' = ''MP 5:03:1''" "rev ''1:3045 PM'' = ''MP 5403:1''" by simp_all
  then have "''1:30:5 PM'' \<notin> standard_texts" "''1:3045 PM'' \<notin> standard_texts"
    using not_standard_text [of "''1:30:5 PM''"] not_standard_text [of "''1:3045 PM''"] by blast+
  moreover have "standard_to_military_time ''1:30:5 PM'' = Some ''13:30:05''" by code_simp
  moreover have "standard_to_military_time ''1:3045 PM'' = Some ''13:30:45''" by code_simp
  ultimately show ?thesis by (intro conjI)
qed

text \<open>
  C5, amended. On texts without a line feed, the standard-time parser accepts exactly
  the anchored grammar: the hour from 1 to 12 with an optional leading zero, a colon, a
  two-digit minute from 00 to 59, an optional colon, an optional second of one digit or
  of two digits from 00 to 59, an optional single space, then \<open>AM\<close> or \<open>PM\<close> in any
  case, with no other character before or after. Every text of this grammar is
  converted, so in particular every text of the grammar of the specification; every
  other text without a line feed (an hour of 0 or above 12, a minute that is not two
  digits, a missing or garbled meridiem, extra characters) fails with a
  \<open>TimeFormatError\<close>, as \<open>13:00:00 AM\<close> does.
\<close>

theorem standard_time_grammar:
  "(s \<in> accepted_texts \<longrightarrow> (\<exists>r. standard_to_military_time s = Some r)) \<and>
   (CHR 0x0A \<notin> set s \<and> s \<notin> accepted_texts \<longrightarrow>
      standard_to_military_time_body s =
        Inl (TimeFormatError ''Invalid standard time format. Use HH:MM:SS AM/PM.'')) \<and>
   standard_texts \<subseteq> accepted_texts \<and>
   standard_to_military_time_body ''13:00:00 AM'' =
     Inl (TimeFormatError ''Invalid standard time format. Use HH:MM:SS AM/PM.'') \<and>
   standard_to_military_time_body ''0:30 AM'' =
     Inl (TimeFormatError ''Invalid standard time format. Use HH:MM:SS AM/PM.'') \<and>
   standard_to_military_time_body ''1:5 PM'' =
     Inl (TimeFormatError ''Invalid standard time format. Use HH:MM:SS AM/PM.'') \<and>
   standard_to_military_time_body ''1:30:075 PM'' =
     Inl (TimeFormatError ''Invalid standard time format. Use HH:MM:SS AM/PM.'') \<and>
   standard_to_military_time_body ''1:30'' =
     Inl (TimeFormatError ''Invalid standard time format. Use HH:MM:SS AM/PM.'') \<and>
   standard_to_military_time_body ''1:30 XM'' =
     Inl (TimeFormatError ''Invalid standard time format. Use HH:MM:SS AM/PM.'') \<and>
   standard_to_military_time_body '' 1:30 PM'' =
     Inl (TimeFormatError ''Invalid standard time format. Use HH:MM:SS AM/PM.'') \<and>
   standard_to_military_time_body ''1:30 PM '' =
     Inl (TimeFormatError ''Invalid standard time format. Use HH:MM:SS AM/PM.'')"
proof -
  have acc: "s \<in> accepted_texts \<longrightarrow> (\<exists>r. standard_to_military_time s = Some r)"
  proof
    assume "s \<in> accepted_texts"
    then obtain z h m c sec sp p where p: "1 \<le> h" "h \<le> 12" "0 \<le> m" "m < 60" "c = [] \<or> c = '':''"
      "sec \<in> insert [] (digit_texts \<union> minute_texts)" "p \<in> meridiem_texts"
      and s: "s = hour_text z h @ '':'' @ two_digits m @ c @ sec @ (if sp then '' '' else []) @ p"
      by (rule accepted_text_parts)
    from standard_to_military_time_accepted [OF p, of "[]" z sp]
    show "\<exists>r. standard_to_military_time s = Some r"
      unfolding s by simp
  qed
  have rej: "CHR 0x0A \<notin> set s \<and> s \<notin> accepted_texts \<longrightarrow>
      standard_to_military_time_body s =
        Inl (TimeFormatError ''Invalid standard time format. Use HH:MM:SS AM/PM.'')"
  proof
    assume a: "CHR 0x0A \<notin> set s \<and> s \<notin> accepted_texts"
    then have "\<not> (\<exists>w \<in> accepted_texts. s = w @ [CHR 0x0A])" by auto
    with a have "re_match True standard_time_pattern s = None"
      using re_match_pattern_iff [of s] by blast
    then show "standard_to_military_time_body s =
        Inl (TimeFormatError ''Invalid standard time format. Use HH:MM:SS AM/PM.'')"
      by (simp only: body_format_error_iff)
  qed
  have e1: "standard_to_military_time_body ''13:00:00 AM'' =
     Inl (TimeFormatError ''Invalid standard time format. Use HH:MM:SS AM/PM.'')" by code_simp
  have e2: "standard_to_military_time_body ''0:30 AM'' =
     Inl (TimeFormatError ''Invalid standard time format. Use HH:MM:SS AM/PM.'')" by code_simp
  have e3: "standard_to_military_time_body ''1:5 PM'' =
     Inl (TimeFormatError ''Invalid standard time format. Use HH:MM:SS AM/PM.'')" by code_simp
  have e4: "standard_to_military_time_body ''1:30:075 PM'' =
     Inl (TimeFormatError ''Invalid standard time format. Use HH:MM:SS AM/PM.'')" by code_simp
  have e5: "standard_to_military_time_body ''1:30'' =
     Inl (TimeFormatError ''Invalid standard time format. Use HH:MM:SS AM/PM.'')" by code_simp
  have e6: "standard_to_military_time_body ''1:30 XM'' =
     Inl (TimeFormatError ''Invalid standard time format. Use HH:MM:SS AM/PM.'')" by code_simp
  have e7: "standard_to_military_time_body '' 1:30 PM'' =
     Inl (TimeFormatError ''Invalid standard time format. Use HH:MM:SS AM/PM.'')" by code_simp
  have e8: "standard_to_military_time_body ''1:30 PM '' =
     Inl (TimeFormatError ''Invalid standard time format. Use HH:MM:SS AM/PM.'')" by code_simp
  show ?thesis
    by (intro conjI acc rej standard_texts_accepted e1 e2 e3 e4 e5 e6 e7 e8)
qed

theorem standard_time_grammar_witness:
  "''1:30:5 PM'' \<in> accepted_texts \<and>
   (\<exists>r. standard_to_military_time ''1:30:5 PM'' = Some r) \<and>
   (CHR 0x0A \<notin> set ''13:00:00 AM'' \<and> ''13:00:00 AM'' \<notin> accepted_texts) \<and>
   standard_to_military_time_body ''13:00:00 AM'' =
     Inl (TimeFormatError ''Invalid standard time format. Use HH:MM:SS AM/PM.'')"
proof -
  have t: "hour_text False 1 @ '':'' @ two_digits 30 @ '':'' @ [digit_char 5] @
      (if True then '' '' else []) @ ''PM'' = ''1:30:5 PM''"
    by code_simp
  have "[digit_char 5] \<in> insert [] (digit_texts \<union> minute_texts)"
    unfolding digit_texts_def by auto
  moreover have "''PM'' \<in> meridiem_texts"
    by (simp add: meridiem_texts_def pm_texts_def)
  ultimately have a: "''1:30:5 PM'' \<in> accepted_texts"
    using accepted_textI [of 1 30 "'':''" "[digit_char 5]" "''PM''" False True]
    unfolding t by simp
  note b = standard_time_grammar [of "''1:30:5 PM''", THEN conjunct1, THEN mp, OF a]
  have "re_match True standard_time_pattern ''13:00:00 AM'' = None"
    unfolding body_format_error_iff [symmetric] by code_simp
  then have "''13:00:00 AM'' \<notin> accepted_texts"
    using re_match_pattern_iff [of "''13:00:00 AM''"] by blast
  then have c: "CHR 0x0A \<notin> set ''13:00:00 AM'' \<and> ''13:00:00 AM'' \<notin> accepted_texts"
    by simp
  note d = standard_time_grammar [of "''13:00:00 AM''", THEN conjunct2, THEN conjunct1, THEN mp, OF c]
  from a b c d show ?thesis by (intro conjI) (elim conjE, assumption)+
qed

end
